theory Spec2Isabelle
  imports Main "HOL-Library.Multiset"
begin

section \<open>Data model\<close>

text \<open>
  An account object as the manager and the routes use it. A field that may be
  \<^verbatim>\<open>undefined\<close> or \<^verbatim>\<open>null\<close> in the JavaScript is an option; expiry
  timestamps are numbers.
\<close>

record account =
  email :: string
  password :: string
  token :: "string option"
  expires :: "int option"
  sessionid :: "string option"
  sessionid_expires :: "int option"

text \<open>
  JavaScript truthiness of a value that is a string, \<^verbatim>\<open>undefined\<close> or
  \<^verbatim>\<open>null\<close>: only a non-empty string is truthy.
\<close>

definition truthy :: "string option \<Rightarrow> bool" where
  "truthy v = (case v of None \<Rightarrow> False | Some s \<Rightarrow> s \<noteq> [])"

text \<open>\<^verbatim>\<open>s.startsWith(p)\<close>\<close>

definition startsWith :: "string \<Rightarrow> string \<Rightarrow> bool" where
  "startsWith s p = (take (length p) s = p)"

section \<open>Account selector\<close>

text \<open>
  \<^verbatim>\<open>
  let rrIndex = 0
  const pickAccount = () => {
    const all = dreaminaAccountManager.getAllAccounts() || []
    const available = all.filter(a => a && a.sessionid)
    if (available.length === 0) return null
    rrIndex = (rrIndex + 1) % available.length
    return available[rrIndex]
  }
  \<close>
  The module variable \<^verbatim>\<open>rrIndex\<close> is passed in and returned.
\<close>

definition available :: "account list \<Rightarrow> account list" where
  "available all = filter (\<lambda>a. truthy (sessionid a)) all"

definition pickAccount :: "account list \<Rightarrow> nat \<Rightarrow> account option \<times> nat" where
  "pickAccount all rrIndex =
     (let av = available all in
      if length av = 0 then (None, rrIndex)
      else (let rrIndex' = (rrIndex + 1) mod length av
            in (Some (av ! rrIndex'), rrIndex')))"

text \<open>\<open>n\<close> consecutive calls over the same store, threading the counter.\<close>

fun pick_n :: "nat \<Rightarrow> account list \<Rightarrow> nat \<Rightarrow> account option list \<times> nat" where
  "pick_n 0 all rrIndex = ([], rrIndex)"
| "pick_n (Suc n) all rrIndex =
     (let (a, r1) = pickAccount all rrIndex;
          (as, r2) = pick_n n all r1
      in (a # as, r2))"

section \<open>Token normalization\<close>

text \<open>
  \<^verbatim>\<open>
  const sessionId = account.sessionid.startsWith('us-')
    ? account.sessionid : `us-${account.sessionid}`
  \<close>
\<close>

definition normalize_session :: "string \<Rightarrow> string" where
  "normalize_session s = (if startsWith s ''us-'' then s else ''us-'' @ s)"

text \<open>
  For the statement that the prefix is present exactly once: the number of
  positions of a string at which a given string occurs.
\<close>

fun occurrences :: "string \<Rightarrow> string \<Rightarrow> nat" where
  "occurrences p [] = 0"
| "occurrences p (c # cs) = (if startsWith (c # cs) p then 1 else 0) + occurrences p cs"

section \<open>Collaborators of the account manager\<close>

text \<open>
  The token manager (\<^verbatim>\<open>DreaminaTokenManager\<close>) and the persistence layer
  (\<^verbatim>\<open>DataPersistence\<close>) are outside the two source files; the manager only
  calls them. They are parameters of the model. A call either returns an object,
  returns a falsy value, or throws (the promise rejects); the outcome of a call
  is a function of its arguments.
\<close>

datatype login_result = LoginOk "string option" "int option" | LoginNull | LoginThrows

datatype refresh_result = Updated account | RefreshNull | RefreshThrows

record token_manager =
  login :: "string \<Rightarrow> string \<Rightarrow> login_result"
  refreshSessionId :: "account \<Rightarrow> refresh_result"
  isSessionIdExpiringSoon :: "int option \<Rightarrow> int \<Rightarrow> bool"

text \<open>The object handed to \<^verbatim>\<open>saveAccount(email, data)\<close>.\<close>

record saved =
  s_email :: "string option"
  s_password :: string
  s_token :: "string option"
  s_expires :: "int option"
  s_sessionid :: "string option"
  s_sessionid_expires :: "int option"

text \<open>\<^verbatim>\<open>saveAccount\<close> resolves (\<open>True\<close>) or throws (\<open>False\<close>).\<close>

record data_persistence =
  saveAccount :: "string \<Rightarrow> saved \<Rightarrow> bool"

text \<open>
  Every call the manager makes to a collaborator is appended to a trace, so that
  "no login call" and "no persistence call" are statements about the state.
\<close>

datatype call = Login string string | Refresh account | Save string saved | Delay nat

section \<open>Account manager\<close>

text \<open>
  The state of the \<^verbatim>\<open>DreaminaAccount\<close> singleton: the in-memory store, the
  initialization flag, and the trace of collaborator calls.
\<close>

record manager =
  dreaminaAccounts :: "account list"
  isInitialized :: bool
  calls :: "call list"

definition record_call :: "call \<Rightarrow> manager \<Rightarrow> manager" where
  "record_call c m = m\<lparr>calls := calls m @ [c]\<rparr>"

text \<open>\<^verbatim>\<open>Array.prototype.findIndex\<close>; \<open>None\<close> is the result \<^verbatim>\<open>-1\<close>.\<close>

fun findIndex :: "('a \<Rightarrow> bool) \<Rightarrow> 'a list \<Rightarrow> nat option" where
  "findIndex P [] = None"
| "findIndex P (x # xs) = (if P x then Some 0 else map_option Suc (findIndex P xs))"

text \<open>
  The body of the loop of \<^verbatim>\<open>autoRefreshSessionIds\<close> for one candidate:
  \<^verbatim>\<open>
  try {
    const updatedAccount = await this.tokenManager.refreshSessionId(account)
    if (updatedAccount) {
      const index = this.dreaminaAccounts.findIndex(acc => acc.email === account.email)
      if (index !== -1) { this.dreaminaAccounts[index] = updatedAccount }
      await this.dataPersistence.saveAccount(account.email, {
        password: updatedAccount.password, token: updatedAccount.token,
        expires: updatedAccount.expires, sessionid: updatedAccount.sessionid,
        sessionid_expires: updatedAccount.sessionid_expires })
      successCount++
    } else { failedCount++ }
  } catch (error) { failedCount++ }
  await this._delay(2000)
  \<close>
\<close>

definition refresh_payload :: "account \<Rightarrow> saved" where
  "refresh_payload u =
     \<lparr>s_email = None, s_password = password u, s_token = token u, s_expires = expires u,
      s_sessionid = sessionid u, s_sessionid_expires = sessionid_expires u\<rparr>"

definition replace_by_email :: "account \<Rightarrow> account \<Rightarrow> manager \<Rightarrow> manager" where
  "replace_by_email account u m =
     (case findIndex (\<lambda>acc. email acc = email account) (dreaminaAccounts m) of
        Some index \<Rightarrow> m\<lparr>dreaminaAccounts := (dreaminaAccounts m)[index := u]\<rparr>
      | None \<Rightarrow> m)"

definition refresh_one ::
  "token_manager \<Rightarrow> data_persistence \<Rightarrow> account \<Rightarrow> manager \<times> nat \<times> nat \<Rightarrow> manager \<times> nat \<times> nat"
where
  "refresh_one tm dp account st =
     (case st of (m, successCount, failedCount) \<Rightarrow>
      (let m1 = record_call (Refresh account) m;
           (m2, sc, fc) =
             (case refreshSessionId tm account of
                Updated u \<Rightarrow>
                  (let m3 = record_call (Save (email account) (refresh_payload u))
                              (replace_by_email account u m1)
                   in if saveAccount dp (email account) (refresh_payload u)
                      then (m3, successCount + 1, failedCount)
                      else (m3, successCount, failedCount + 1))
              | RefreshNull \<Rightarrow> (m1, successCount, failedCount + 1)
              | RefreshThrows \<Rightarrow> (m1, successCount, failedCount + 1))
       in (record_call (Delay 2000) m2, sc, fc)))"

fun refresh_each ::
  "token_manager \<Rightarrow> data_persistence \<Rightarrow> account list \<Rightarrow> manager \<times> nat \<times> nat \<Rightarrow> manager \<times> nat \<times> nat"
where
  "refresh_each tm dp [] st = st"
| "refresh_each tm dp (account # rest) st = refresh_each tm dp rest (refresh_one tm dp account st)"

text \<open>
  \<^verbatim>\<open>async autoRefreshSessionIds(thresholdHours = 24)\<close>: returns the success count
  and the new state.
\<close>

definition autoRefreshSessionIds ::
  "token_manager \<Rightarrow> data_persistence \<Rightarrow> int \<Rightarrow> manager \<Rightarrow> nat \<times> manager"
where
  "autoRefreshSessionIds tm dp thresholdHours m =
     (if \<not> isInitialized m then (0, m)
      else
        (let needsRefresh =
               filter (\<lambda>account. isSessionIdExpiringSoon tm (sessionid_expires account) thresholdHours)
                 (dreaminaAccounts m)
         in if length needsRefresh = 0 then (0, m)
            else (case refresh_each tm dp needsRefresh (m, 0, 0) of
                    (m', successCount, failedCount) \<Rightarrow> (successCount, m'))))"

text \<open>
  \<^verbatim>\<open>async addAccount(email, password)\<close>. The whole body is inside
  \<^verbatim>\<open>try { ... } catch (error) { return false }\<close>, so a throwing login or save
  gives the result false.
\<close>

definition new_payload :: "account \<Rightarrow> saved" where
  "new_payload a =
     \<lparr>s_email = Some (email a), s_password = password a, s_token = None, s_expires = None,
      s_sessionid = sessionid a, s_sessionid_expires = sessionid_expires a\<rparr>"

definition addAccount ::
  "token_manager \<Rightarrow> data_persistence \<Rightarrow> string \<Rightarrow> string \<Rightarrow> manager \<Rightarrow> bool \<times> manager"
where
  "addAccount tm dp e pw m =
     (case find (\<lambda>acc. email acc = e) (dreaminaAccounts m) of
        Some existingAccount \<Rightarrow> (False, m)
      | None \<Rightarrow>
          (let m1 = record_call (Login e pw) m in
           case login tm e pw of
             LoginThrows \<Rightarrow> (False, m1)
           | LoginNull \<Rightarrow> (False, m1)
           | LoginOk sid exp \<Rightarrow>
               (let newAccount = \<lparr>email = e, password = pw, token = None, expires = None,
                                   sessionid = sid, sessionid_expires = exp\<rparr>;
                    m2 = m1\<lparr>dreaminaAccounts := dreaminaAccounts m1 @ [newAccount]\<rparr>;
                    m3 = record_call (Save e (new_payload newAccount)) m2
                in (saveAccount dp e (new_payload newAccount), m3))))"

text \<open>
  For the statements about a scan: a refresh attempt fails when the call returns
  null or throws; the accounts a trace records refresh attempts for, in order.
\<close>

definition refresh_fails :: "token_manager \<Rightarrow> account \<Rightarrow> bool" where
  "refresh_fails tm a =
     (case refreshSessionId tm a of Updated u \<Rightarrow> False | RefreshNull \<Rightarrow> True | RefreshThrows \<Rightarrow> True)"

text \<open>
  The refresh returned an account and the save that follows it throws: the
  \<^verbatim>\<open>catch\<close> counts the account as failed after the store was written.
\<close>

definition save_fails :: "token_manager \<Rightarrow> data_persistence \<Rightarrow> account \<Rightarrow> bool" where
  "save_fails tm dp a =
     (case refreshSessionId tm a of
        Updated u \<Rightarrow> \<not> saveAccount dp (email a) (refresh_payload u)
      | RefreshNull \<Rightarrow> False
      | RefreshThrows \<Rightarrow> False)"

fun attempted :: "call list \<Rightarrow> account list" where
  "attempted [] = []"
| "attempted (Refresh a # cs) = a # attempted cs"
| "attempted (c # cs) = attempted cs"

section \<open>Routes over the account manager\<close>

text \<open>
  The timer installed by \<^verbatim>\<open>_initialize\<close> calls
  \<^verbatim>\<open>this.autoRefreshSessionIds()\<close>, that is with the default threshold 24.
\<close>

definition scheduled_tick ::
  "token_manager \<Rightarrow> data_persistence \<Rightarrow> manager \<Rightarrow> nat \<times> manager" where
  "scheduled_tick tm dp m = autoRefreshSessionIds tm dp 24 m"

text \<open>
  \<^verbatim>\<open>POST /refreshAllAccounts\<close>: \<^verbatim>\<open>const { thresholdHours = 24 } = req.body\<close>;
  the reply carries \<^verbatim>\<open>refreshedCount\<close> and \<^verbatim>\<open>thresholdHours\<close>.
\<close>

definition refreshAllAccounts ::
  "token_manager \<Rightarrow> data_persistence \<Rightarrow> int option \<Rightarrow> manager \<Rightarrow> (nat \<times> int) \<times> manager"
where
  "refreshAllAccounts tm dp body_thresholdHours m =
     (let thresholdHours = (case body_thresholdHours of None \<Rightarrow> 24 | Some t \<Rightarrow> t);
          (refreshedCount, m') = autoRefreshSessionIds tm dp thresholdHours m
      in ((refreshedCount, thresholdHours), m'))"

text \<open>
  \<^verbatim>\<open>POST /forceRefreshAllAccounts\<close>: the reply carries \<^verbatim>\<open>refreshedCount\<close>
  and \<^verbatim>\<open>totalAccounts\<close>.
\<close>

definition forceRefreshAllAccounts ::
  "token_manager \<Rightarrow> data_persistence \<Rightarrow> manager \<Rightarrow> (nat \<times> nat) \<times> manager"
where
  "forceRefreshAllAccounts tm dp m =
     (let (refreshedCount, m') = autoRefreshSessionIds tm dp 8760 m
      in ((refreshedCount, length (dreaminaAccounts m')), m'))"

section \<open>Bulk account creation\<close>

text \<open>
  A string is a list of code units below 256 (the type \<open>char\<close>). Of the
  characters that \<^verbatim>\<open>String.prototype.trim\<close> removes (white space and line
  terminators), those in this range are: tab, line feed, vertical tab, form feed,
  carriage return, space and the no-break space U+00A0.
\<close>

definition is_ws :: "char \<Rightarrow> bool" where
  "is_ws c = (c = CHR 0x09 \<or> c = CHR 0x0A \<or> c = CHR 0x0B \<or> c = CHR 0x0C \<or> c = CHR 0x0D
              \<or> c = CHR 0x20 \<or> c = CHR 0xA0)"

definition trim :: "string \<Rightarrow> string" where
  "trim s = rev (dropWhile is_ws (rev (dropWhile is_ws s)))"

text \<open>
  \<^verbatim>\<open>accounts.split(/\r?\n/)\<close>: a line feed ends the current piece, and a
  carriage return right before it belongs to the separator.
\<close>

fun split_lines_from :: "string \<Rightarrow> string \<Rightarrow> string list" where
  "split_lines_from piece [] = [piece]"
| "split_lines_from piece (c # cs) =
     (if c = CHR 0x0A
      then (if piece \<noteq> [] \<and> last piece = CHR 0x0D then butlast piece else piece)
             # split_lines_from [] cs
      else split_lines_from (piece @ [c]) cs)"

text \<open>\<^verbatim>\<open>line.split(':')\<close>\<close>

fun split_colon_from :: "string \<Rightarrow> string \<Rightarrow> string list" where
  "split_colon_from piece [] = [piece]"
| "split_colon_from piece (c # cs) =
     (if c = CHR '':'' then piece # split_colon_from [] cs
      else split_colon_from (piece @ [c]) cs)"

text \<open>Array destructuring: a missing element is \<^verbatim>\<open>undefined\<close>.\<close>

definition element :: "'a list \<Rightarrow> nat \<Rightarrow> 'a option" where
  "element xs i = (if i < length xs then Some (xs ! i) else None)"

text \<open>
  The body of the loop of the background job of \<^verbatim>\<open>POST /setAccounts\<close>:
  \<^verbatim>\<open>
  const [email, password] = line.split(':')
  if (!email || !password) continue
  const exists = dreaminaAccountManager.getAllAccounts().find(item => item.email === email)
  if (exists) { failed.push({ email, reason: 'exists' }); continue }
  try {
    const ok = await dreaminaAccountManager.addAccount(email, password)
    if (ok) successCount++
    else failed.push({ email, reason: 'failed' })
  } catch (e) { failed.push({ email, reason: e.message || 'failed' }) }
  \<close>
  \<^verbatim>\<open>addAccount\<close> catches everything itself, so the last \<^verbatim>\<open>catch\<close> has
  no case in the model.
\<close>

definition batch_one ::
  "token_manager \<Rightarrow> data_persistence \<Rightarrow> string \<Rightarrow>
   manager \<times> nat \<times> (string \<times> string) list \<Rightarrow> manager \<times> nat \<times> (string \<times> string) list"
where
  "batch_one tm dp line st =
     (case st of (m, successCount, failed) \<Rightarrow>
      (let parts = split_colon_from [] line in
       if \<not> truthy (element parts 0) \<or> \<not> truthy (element parts 1) then st
       else
         (case (element parts 0, element parts 1) of
            (Some e, Some pw) \<Rightarrow>
              (case find (\<lambda>item. email item = e) (dreaminaAccounts m) of
                 Some exists \<Rightarrow> (m, successCount, failed @ [(e, ''exists'')])
               | None \<Rightarrow>
                   (case addAccount tm dp e pw m of
                      (ok, m') \<Rightarrow>
                        if ok then (m', successCount + 1, failed)
                        else (m', successCount, failed @ [(e, ''failed'')])))
          | _ \<Rightarrow> st)))"

fun batch_loop ::
  "token_manager \<Rightarrow> data_persistence \<Rightarrow> string list \<Rightarrow>
   manager \<times> nat \<times> (string \<times> string) list \<Rightarrow> manager \<times> nat \<times> (string \<times> string) list"
where
  "batch_loop tm dp [] st = st"
| "batch_loop tm dp (line # rest) st = batch_loop tm dp rest (batch_one tm dp line st)"

text \<open>The payload of the event \<^verbatim>\<open>account:batchAdd:done\<close> (without the job id).\<close>

record batch_done =
  ev_total :: nat
  ev_successCount :: nat
  ev_failed :: "(string \<times> string) list"

definition batch_job ::
  "token_manager \<Rightarrow> data_persistence \<Rightarrow> string list \<Rightarrow> manager \<Rightarrow> batch_done \<times> manager"
where
  "batch_job tm dp list m =
     (case batch_loop tm dp list (m, 0, []) of
        (m', successCount, failed) \<Rightarrow>
          (\<lparr>ev_total = length list, ev_successCount = successCount, ev_failed = failed\<rparr>, m'))"

definition parse_list :: "string \<Rightarrow> string list" where
  "parse_list accounts = filter (\<lambda>item. item \<noteq> []) (map trim (split_lines_from [] accounts))"

text \<open>
  \<^verbatim>\<open>POST /setAccounts\<close>: the HTTP status with the \<^verbatim>\<open>total\<close> of the 202
  reply, the completion event when a job ran, and the new state.
\<close>

definition setAccounts ::
  "token_manager \<Rightarrow> data_persistence \<Rightarrow> string option \<Rightarrow> manager \<Rightarrow>
   (nat \<times> nat option) \<times> batch_done option \<times> manager"
where
  "setAccounts tm dp accounts m =
     (case accounts of
        None \<Rightarrow> ((400, None), None, m)
      | Some a \<Rightarrow>
          if a = [] then ((400, None), None, m)
          else (let list = parse_list a in
                case batch_job tm dp list m of
                  (ev, m') \<Rightarrow> ((202, Some (length list)), Some ev, m')))"

text \<open>
  For the statements about the job: a line both of whose first two fields are
  non-empty (the lines the loop does not skip), and the first field of a line.
\<close>

definition has_both_fields :: "string \<Rightarrow> bool" where
  "has_both_fields line =
     (truthy (element (split_colon_from [] line) 0) \<and> truthy (element (split_colon_from [] line) 1))"

definition line_email :: "string \<Rightarrow> string" where
  "line_email line = (case element (split_colon_from [] line) 0 of Some e \<Rightarrow> e | None \<Rightarrow> [])"

section \<open>Dispatcher\<close>

text \<open>
  \<^verbatim>\<open>toLowerCase\<close> and \<^verbatim>\<open>toUpperCase\<close> on byte strings: the letters A to Z
  and a to z are mapped, every other character is kept.
\<close>

definition lower_char :: "char \<Rightarrow> char" where
  "lower_char c =
     (case map_of (zip ''ABCDEFGHIJKLMNOPQRSTUVWXYZ'' ''abcdefghijklmnopqrstuvwxyz'') c of
        Some l \<Rightarrow> l | None \<Rightarrow> c)"

definition upper_char :: "char \<Rightarrow> char" where
  "upper_char c =
     (case map_of (zip ''abcdefghijklmnopqrstuvwxyz'' ''ABCDEFGHIJKLMNOPQRSTUVWXYZ'') c of
        Some u \<Rightarrow> u | None \<Rightarrow> c)"

definition toLowerCase :: "string \<Rightarrow> string" where
  "toLowerCase s = map lower_char s"

definition toUpperCase :: "string \<Rightarrow> string" where
  "toUpperCase s = map upper_char s"

text \<open>\<^verbatim>\<open>s.includes(p)\<close>\<close>

fun str_includes :: "string \<Rightarrow> string \<Rightarrow> bool" where
  "str_includes [] p = (p = [])"
| "str_includes (c # cs) p = (startsWith (c # cs) p \<or> str_includes cs p)"

record request =
  req_method :: string
  req_path :: string
  req_originalUrl :: "string option"
  req_url :: "string option"
  req_headers :: "string \<rightharpoonup> string"
  req_body :: "string option"

text \<open>
  \<^verbatim>\<open>
  const originalPath = req.originalUrl || req.url || ''
  const pathWithoutApi = originalPath.replace(/^\/api/, '')
  const targetUrl = base.replace(/\/$/, '') + pathWithoutApi
  \<close>
\<close>

definition originalPath :: "request \<Rightarrow> string" where
  "originalPath req =
     (case req_originalUrl req of
        Some u \<Rightarrow> if u \<noteq> [] then u else (case req_url req of Some v \<Rightarrow> v | None \<Rightarrow> [])
      | None \<Rightarrow> (case req_url req of Some v \<Rightarrow> v | None \<Rightarrow> []))"

definition pathWithoutApi :: "string \<Rightarrow> string" where
  "pathWithoutApi p = (if startsWith p ''/api'' then drop 4 p else p)"

definition without_trailing_slash :: "string \<Rightarrow> string" where
  "without_trailing_slash b = (if b \<noteq> [] \<and> last b = CHR ''/'' then butlast b else b)"

definition targetUrl :: "string \<Rightarrow> request \<Rightarrow> string" where
  "targetUrl base req = without_trailing_slash base @ pathWithoutApi (originalPath req)"

text \<open>
  \<^verbatim>\<open>
  const incomingHeaders = { ...req.headers }
  ;['host', 'connection', 'content-length', 'transfer-encoding', 'expect'].forEach(h => {
    if (incomingHeaders[h]) delete incomingHeaders[h]
    const H = h.charAt(0).toUpperCase() + h.slice(1)
    if (incomingHeaders[H]) delete incomingHeaders[H]
  })
  const headers = { ...incomingHeaders, authorization: `Bearer ${sessionId}` }
  \<close>
  A header object is a map from names to values; a header value is a string.
\<close>

definition capitalize :: "string \<Rightarrow> string" where
  "capitalize h = toUpperCase (take 1 h) @ drop 1 h"

definition delete_if_set :: "string \<Rightarrow> (string \<rightharpoonup> string) \<Rightarrow> (string \<rightharpoonup> string)" where
  "delete_if_set k hs = (if truthy (hs k) then hs(k := None) else hs)"

definition clean_header :: "string \<Rightarrow> (string \<rightharpoonup> string) \<Rightarrow> (string \<rightharpoonup> string)" where
  "clean_header h hs = delete_if_set (capitalize h) (delete_if_set h hs)"

definition cleaned_names :: "string list" where
  "cleaned_names = [''host'', ''connection'', ''content-length'', ''transfer-encoding'', ''expect'']"

definition outbound_headers :: "(string \<rightharpoonup> string) \<Rightarrow> string \<Rightarrow> (string \<rightharpoonup> string)" where
  "outbound_headers incomingHeaders sessionId =
     (fold clean_header cleaned_names incomingHeaders)(''authorization'' \<mapsto> ''Bearer '' @ sessionId)"

text \<open>
  \<^verbatim>\<open>
  const axiosConfig = { method: req.method, url: targetUrl, headers,
    data: ['GET', 'HEAD'].includes(req.method.toUpperCase()) ? undefined : req.body,
    timeout: config.proxyTimeoutMs, validateStatus: () => true }
  \<close>
  The field \<^verbatim>\<open>method\<close> of the configuration is \<open>http_method\<close> here.
\<close>

record axios_config =
  http_method :: string
  url :: string
  headers :: "string \<rightharpoonup> string"
  data :: "string option"
  timeout :: int
  validateStatus :: "nat \<Rightarrow> bool"

definition axiosConfig :: "string \<Rightarrow> int \<Rightarrow> string \<Rightarrow> request \<Rightarrow> axios_config" where
  "axiosConfig base proxyTimeoutMs sessionId req =
     \<lparr>http_method = req_method req,
      url = targetUrl base req,
      headers = outbound_headers (req_headers req) sessionId,
      data = (if toUpperCase (req_method req) = ''GET'' \<or> toUpperCase (req_method req) = ''HEAD''
              then None else req_body req),
      timeout = proxyTimeoutMs,
      validateStatus = (\<lambda>st. True)\<rparr>"

text \<open>What the awaited client call gives: a response, or a thrown error.\<close>

record upstream_response =
  resp_status :: nat
  resp_headers :: "(string \<times> string) list"
  resp_data :: "string option"

record transport_error =
  code :: "string option"
  message :: "string option"

datatype upstream_outcome = Responded upstream_response | Rejected transport_error

text \<open>
  The HTTP client \<^verbatim>\<open>axios\<close> is a library outside the repository. The handler
  depends on this much of it: a request either gets an HTTP answer from the
  upstream or fails in transport (no answer: timeout, refused or aborted
  connection, name not resolved). A transport failure rejects the promise with
  that error. An answer resolves the promise when \<^verbatim>\<open>validateStatus\<close> of the
  configuration accepts its status, and otherwise rejects it with the library's
  status error. What the network does with a request is a parameter.
\<close>

datatype wire_outcome = Answered upstream_response | TransportFailed transport_error

fun digits :: "nat \<Rightarrow> string" where
  "digits n =
     (if n < 10 then [char_of (48 + n)] else digits (n div 10) @ [char_of (48 + n mod 10)])"

definition status_error :: "nat \<Rightarrow> transport_error" where
  "status_error st =
     \<lparr>code = (if 400 \<le> st \<and> st < 500 then Some ''ERR_BAD_REQUEST''
              else if 500 \<le> st \<and> st < 600 then Some ''ERR_BAD_RESPONSE'' else None),
      message = Some (''Request failed with status code '' @ digits st)\<rparr>"

definition axios :: "(axios_config \<Rightarrow> wire_outcome) \<Rightarrow> axios_config \<Rightarrow> upstream_outcome" where
  "axios wire cfg =
     (case wire cfg of
        Answered resp \<Rightarrow>
          if validateStatus cfg (resp_status resp) then Responded resp
          else Rejected (status_error (resp_status resp))
      | TransportFailed e \<Rightarrow> Rejected e)"

text \<open>What the handler sends to the caller.\<close>

datatype sent_body = ErrorJson string "string option" | RelayedData "string option"

record reply =
  status :: nat
  sent :: sent_body
  relayed_headers :: "(string \<times> string) list"
  cors :: bool

text \<open>
  \<^verbatim>\<open>
  if (e.code === 'ECONNABORTED' || (e.message && e.message.toLowerCase().includes('timeout')))
    return res.status(504).json({ error: 'gateway timeout', detail: e.message })
  return res.status(502).json({ error: 'bad gateway', detail: e.message })
  \<close>
\<close>

definition is_timeout :: "transport_error \<Rightarrow> bool" where
  "is_timeout e =
     (code e = Some ''ECONNABORTED''
      \<or> (case message e of
            None \<Rightarrow> False
          | Some msg \<Rightarrow> msg \<noteq> [] \<and> str_includes (toLowerCase msg) ''timeout''))"

definition on_error :: "transport_error \<Rightarrow> reply" where
  "on_error e =
     (if is_timeout e
      then \<lparr>status = 504, sent = ErrorJson ''gateway timeout'' (message e),
            relayed_headers = [], cors = True\<rparr>
      else \<lparr>status = 502, sent = ErrorJson ''bad gateway'' (message e),
            relayed_headers = [], cors = True\<rparr>)"

text \<open>
  The response path: every header of the upstream response except the hop-by-hop
  ones is copied, the CORS headers are set, and status and body are relayed.
\<close>

definition hop_by_hop :: "string \<Rightarrow> bool" where
  "hop_by_hop k = (toLowerCase k \<in> set [''connection'', ''keep-alive'', ''transfer-encoding'', ''upgrade''])"

definition on_response :: "upstream_response \<Rightarrow> reply" where
  "on_response resp =
     \<lparr>status = resp_status resp, sent = RelayedData (resp_data resp),
      relayed_headers = filter (\<lambda>(k, v). \<not> hop_by_hop k) (resp_headers resp), cors = True\<rparr>"

text \<open>
  The handler \<^verbatim>\<open>router.all('*', apiKeyVerify, ...)\<close> after the key check. It
  takes the configured target, the timeout, the network behind the HTTP client,
  the store and the counter of the selector, and returns the reply and the new
  counter.
\<close>

definition dispatch ::
  "string \<Rightarrow> int \<Rightarrow> (axios_config \<Rightarrow> wire_outcome) \<Rightarrow> account list \<Rightarrow> nat \<Rightarrow> request
   \<Rightarrow> reply \<times> nat"
where
  "dispatch base proxyTimeoutMs wire all rrIndex req =
     (if base = []
      then (\<lparr>status = 503, sent = ErrorJson ''proxy target not configured'' None,
             relayed_headers = [], cors = True\<rparr>, rrIndex)
      else if startsWith (req_path req) ''/dreamina'' \<or> startsWith (req_path req) ''/events''
      then (\<lparr>status = 404, sent = ErrorJson ''not found'' None,
             relayed_headers = [], cors = False\<rparr>, rrIndex)
      else
        (case pickAccount all rrIndex of
           (None, rr) \<Rightarrow>
             (\<lparr>status = 503, sent = ErrorJson ''no available account'' None,
               relayed_headers = [], cors = False\<rparr>, rr)
         | (Some account, rr) \<Rightarrow>
             if \<not> truthy (sessionid account)
             then (\<lparr>status = 503, sent = ErrorJson ''no available account'' None,
                    relayed_headers = [], cors = False\<rparr>, rr)
             else
               (case sessionid account of
                  None \<Rightarrow>
                    (\<lparr>status = 503, sent = ErrorJson ''no available account'' None,
                      relayed_headers = [], cors = False\<rparr>, rr)
                | Some sid \<Rightarrow>
                    (case axios wire (axiosConfig base proxyTimeoutMs (normalize_session sid) req) of
                       Responded resp \<Rightarrow> (on_response resp, rr)
                     | Rejected e \<Rightarrow> (on_error e, rr)))))"

section \<open>Example data\<close>

text \<open>Collaborators for the examples: every login, refresh and save succeeds.\<close>

definition tm_ok :: token_manager where
  "tm_ok = \<lparr>login = (\<lambda>e pw. LoginOk (Some (''sid-'' @ e)) (Some 100)),
            refreshSessionId = (\<lambda>a. Updated (a\<lparr>sessionid := Some ''fresh'', sessionid_expires := Some 200\<rparr>)),
            isSessionIdExpiringSoon = (\<lambda>exp th. True)\<rparr>"

text \<open>The refresh of the account named bad returns null, that of the account named worse throws.\<close>

definition tm_some_fail :: token_manager where
  "tm_some_fail = \<lparr>login = (\<lambda>e pw. if e = ''bad'' then LoginNull else LoginOk (Some (''sid-'' @ e)) (Some 100)),
            refreshSessionId = (\<lambda>a. if email a = ''bad'' then RefreshNull
                                      else if email a = ''worse'' then RefreshThrows
                                      else Updated (a\<lparr>sessionid := Some ''fresh'', sessionid_expires := Some 200\<rparr>)),
            isSessionIdExpiringSoon = (\<lambda>exp th. True)\<rparr>"

definition dp_ok :: data_persistence where
  "dp_ok = \<lparr>saveAccount = (\<lambda>e d. True)\<rparr>"

text \<open>A persistence layer whose every save throws.\<close>

definition dp_fail :: data_persistence where
  "dp_fail = \<lparr>saveAccount = (\<lambda>e d. False)\<rparr>"

text \<open>A persistence layer whose save throws for the account named d only.\<close>

definition dp_some_fail :: data_persistence where
  "dp_some_fail = \<lparr>saveAccount = (\<lambda>e d. e \<noteq> ''d'')\<rparr>"

definition mgr :: "bool \<Rightarrow> account list \<Rightarrow> manager" where
  "mgr init as = \<lparr>dreaminaAccounts = as, isInitialized = init, calls = []\<rparr>"

definition get_request :: "string \<Rightarrow> (string \<rightharpoonup> string) \<Rightarrow> request" where
  "get_request p hs = \<lparr>req_method = ''GET'', req_path = p, req_originalUrl = Some (''/api'' @ p),
                        req_url = Some p, req_headers = hs, req_body = None\<rparr>"

text \<open>
  A header object as the HTTP server hands it over (names in lower case), with a
  connection header whose value is empty.
\<close>

definition inbound_headers :: "string \<rightharpoonup> string" where
  "inbound_headers = [''host'' \<mapsto> ''me.example'', ''connection'' \<mapsto> [],
                      ''accept'' \<mapsto> ''*/*'', ''authorization'' \<mapsto> ''Bearer api-key'']"

text \<open>An account with the given email and sessionid, for the examples below.\<close>

definition acct :: "string \<Rightarrow> string option \<Rightarrow> account" where
  "acct e sid = \<lparr>email = e, password = ''pw'', token = None, expires = None,
                 sessionid = sid, sessionid_expires = None\<rparr>"

section \<open>Properties of the selector\<close>

lemma mod_shift_Suc: "Suc (Suc r mod N + i) mod N = Suc (Suc (r + i)) mod N"
proof -
  have "Suc (Suc r mod N + i) mod N = (Suc r mod N + Suc i) mod N" by simp
  also have "\<dots> = (Suc r + Suc i) mod N" by (rule mod_add_left_eq)
  finally show ?thesis by simp
qed

lemma mod_shift: "(Suc r mod N + i) mod N = Suc (r + i) mod N"
proof -
  have "(Suc r mod N + i) mod N = (Suc r + i) mod N" by (rule mod_add_left_eq)
  then show ?thesis by simp
qed

lemma pickAccount_nonempty:
  "available all \<noteq> [] \<Longrightarrow>
   pickAccount all r =
     (Some (available all ! ((r + 1) mod length (available all))),
      (r + 1) mod length (available all))"
  by (simp add: pickAccount_def Let_def)

lemma pick_n_nth:
  "available all \<noteq> [] \<Longrightarrow>
   fst (pick_n n all r) =
     map (\<lambda>i. Some (available all ! ((r + 1 + i) mod length (available all)))) [0..<n]"
proof (induction n arbitrary: r)
  case 0
  then show ?case by simp
next
  case (Suc n)
  let ?av = "available all"
  let ?N = "length ?av"
  let ?r1 = "(r + 1) mod ?N"
  have step: "fst (pick_n (Suc n) all r) = Some (?av ! ?r1) # fst (pick_n n all ?r1)"
    using Suc.prems by (simp add: pickAccount_nonempty split: prod.splits)
  have "map (\<lambda>i. Some (?av ! ((r + 1 + i) mod ?N))) [0..<Suc n] =
        Some (?av ! ?r1) # map (\<lambda>i. Some (?av ! ((r + 1 + Suc i) mod ?N))) [0..<n]"
    by (simp add: upt_conv_Cons map_Suc_upt [symmetric] del: upt_Suc)
  then show ?case
    using step Suc.IH [OF Suc.prems, of ?r1] by (simp add: mod_shift_Suc del: upt_Suc)
qed

lemma rotate_as_map:
  assumes "xs \<noteq> []"
  shows "rotate k xs = map (\<lambda>i. xs ! ((k + i) mod length xs)) [0..<length xs]"
  by (rule nth_equalityI) (simp_all add: nth_rotate)

lemma mset_rotate_eq: "mset (rotate k xs) = mset xs"
proof -
  let ?m = "k mod length xs"
  have "mset (rotate k xs) = mset (drop ?m xs @ take ?m xs)"
    by (simp only: rotate_drop_take)
  also have "\<dots> = mset (take ?m xs @ drop ?m xs)"
    by (simp only: mset_append add.commute)
  also have "\<dots> = mset xs"
    by (simp only: append_take_drop_id)
  finally show ?thesis .
qed

text \<open>
  C2. Whenever the token-bearing accounts form a list of N >= 1 accounts, then for
  every starting value of the counter, N consecutive selections over the unchanged
  store return the filtered list rotated by a fixed offset: each token-bearing
  account exactly once, in the cyclic order of the filtered list.
\<close>

theorem pick_n_round_robin:
  assumes "length (available all) = N" and "1 \<le> N"
  shows "fst (pick_n N all r) = map Some (rotate ((r + 1) mod N) (available all))
       \<and> mset (fst (pick_n N all r)) = mset (map Some (available all))"
proof -
  let ?av = "available all"
  have ne: "?av \<noteq> []" using assms by auto
  have "fst (pick_n N all r) = map (\<lambda>i. Some (?av ! ((r + 1 + i) mod N))) [0..<N]"
    using pick_n_nth [OF ne, of N r] assms by simp
  also have "\<dots> = map Some (rotate ((r + 1) mod N) ?av)"
    using assms by (simp add: rotate_as_map [OF ne] mod_shift)
  finally have eq: "fst (pick_n N all r) = map Some (rotate ((r + 1) mod N) ?av)" .
  then show ?thesis by (simp add: mset_rotate_eq)
qed

theorem pick_n_round_robin_witness:
  "fst (pick_n 2 [acct ''a'' (Some ''s1''), acct ''b'' None, acct ''c'' (Some ''s3'')] 5)
   = [Some (acct ''a'' (Some ''s1'')), Some (acct ''c'' (Some ''s3''))]"
  using pick_n_round_robin
    [of "[acct ''a'' (Some ''s1''), acct ''b'' None, acct ''c'' (Some ''s3'')]" 2 5]
  by (simp add: available_def truthy_def acct_def rotate1_def)

text \<open>
  C7. The selector returns null exactly when no account holds a non-empty
  sessionid; an account it returns is one of the store's accounts and its
  sessionid is non-empty.
\<close>

theorem pickAccount_null_iff:
  "(fst (pickAccount all r) = None) = (available all = [])
   \<and> (\<forall>a. fst (pickAccount all r) = Some a \<longrightarrow> a \<in> set all \<and> truthy (sessionid a))"
proof -
  let ?av = "available all"
  have mem: "?av ! ((r + 1) mod length ?av) \<in> set ?av" if "?av \<noteq> []"
    using that by simp
  have sub: "x \<in> set ?av \<Longrightarrow> x \<in> set all \<and> truthy (sessionid x)" for x
    by (simp add: available_def)
  show ?thesis
  proof (cases "?av = []")
    case True
    then show ?thesis by (simp add: pickAccount_def)
  next
    case False
    then show ?thesis using mem [OF False] sub by (simp add: pickAccount_nonempty)
  qed
qed

theorem pickAccount_null_iff_witness:
  "fst (pickAccount [acct ''a'' (Some []), acct ''b'' (Some ''s2'')] 0)
     = Some (acct ''b'' (Some ''s2''))
   \<and> truthy (sessionid (acct ''b'' (Some ''s2'')))
   \<and> fst (pickAccount [acct ''a'' (Some []), acct ''b'' None] 0) = None"
  using pickAccount_null_iff [of "[acct ''a'' (Some []), acct ''b'' (Some ''s2'')]" 0]
    pickAccount_null_iff [of "[acct ''a'' (Some []), acct ''b'' None]" 0]
  by (simp add: pickAccount_def available_def truthy_def acct_def)

section \<open>Properties of the account manager\<close>

text \<open>
  C10. While the manager is not initialized, every refresh scan returns 0 and
  leaves the whole state as it was: the store, and the trace of collaborator calls
  (no refresh attempt, no save). This holds for the function itself with any
  threshold, for the timer's call, and for the routes refreshAllAccounts and
  forceRefreshAllAccounts, which report the count 0.
\<close>

theorem refresh_scan_uninitialized_noop:
  assumes "\<not> isInitialized m"
  shows "autoRefreshSessionIds tm dp thresholdHours m = (0, m)
       \<and> scheduled_tick tm dp m = (0, m)
       \<and> refreshAllAccounts tm dp body_thresholdHours m
           = ((0, case body_thresholdHours of None \<Rightarrow> 24 | Some t \<Rightarrow> t), m)
       \<and> forceRefreshAllAccounts tm dp m = ((0, length (dreaminaAccounts m)), m)"
proof -
  have scan: "autoRefreshSessionIds tm dp t m = (0, m)" for t
    using assms by (simp add: autoRefreshSessionIds_def)
  show ?thesis
    by (simp add: scan scheduled_tick_def refreshAllAccounts_def forceRefreshAllAccounts_def)
qed

theorem refresh_scan_uninitialized_noop_witness:
  "autoRefreshSessionIds tm_ok dp_ok 8760 (mgr False [acct ''a'' (Some ''s1'')])
     = (0, mgr False [acct ''a'' (Some ''s1'')])
   \<and> forceRefreshAllAccounts tm_ok dp_ok (mgr False [acct ''a'' (Some ''s1'')])
     = ((0, 1), mgr False [acct ''a'' (Some ''s1'')])
   \<and> fst (autoRefreshSessionIds tm_ok dp_ok 8760 (mgr True [acct ''a'' (Some ''s1'')])) = 1"
  using refresh_scan_uninitialized_noop [of "mgr False [acct ''a'' (Some ''s1'')]" tm_ok dp_ok 8760 None]
  by (simp add: mgr_def autoRefreshSessionIds_def tm_ok_def dp_ok_def refresh_one_def
      record_call_def replace_by_email_def acct_def)

lemma find_Some_if_email:
  "e \<in> email ` set as \<Longrightarrow> \<exists>a. find (\<lambda>acc. email acc = e) as = Some a"
  by (induction as) auto

text \<open>
  C6. Adding an account whose email is already in the store returns false and
  leaves the whole state as it was: the store is the same list (no record changed,
  none appended) and the trace is the same (no login call, no save).
\<close>

theorem addAccount_existing_rejected:
  assumes "e \<in> email ` set (dreaminaAccounts m)"
  shows "addAccount tm dp e pw m = (False, m)"
  using find_Some_if_email [OF assms] by (auto simp: addAccount_def)

theorem addAccount_existing_rejected_witness:
  "addAccount tm_ok dp_ok ''a'' ''other'' (mgr True [acct ''a'' (Some ''s1'')])
     = (False, mgr True [acct ''a'' (Some ''s1'')])
   \<and> fst (addAccount tm_ok dp_ok ''b'' ''other'' (mgr True [acct ''a'' (Some ''s1'')])) = True"
  using addAccount_existing_rejected [of "''a''" "mgr True [acct ''a'' (Some ''s1'')]" tm_ok dp_ok "''other''"]
  by (simp add: mgr_def acct_def addAccount_def tm_ok_def dp_ok_def record_call_def Let_def)


section \<open>Properties of the dispatcher\<close>

lemma pathWithoutApi_prefixed: "pathWithoutApi (''/api'' @ rest) = rest"
  by (simp add: pathWithoutApi_def startsWith_def)

text \<open>
  C5. For an inbound path /api followed by any rest, the URL of the outbound
  request is the base without one trailing slash, followed by exactly that rest
  (a rest that itself starts with /api keeps it). A non-empty path that does not
  start with /api is appended whole. Removing the trailing slash takes off
  exactly one slash, and nothing from a base that does not end in one. The path
  /api/foo/bar with base https://up.example gives https://up.example/foo/bar.
\<close>

theorem targetUrl_strips_api_prefix:
  "url (axiosConfig base t sid (req\<lparr>req_originalUrl := Some (''/api'' @ rest)\<rparr>))
     = without_trailing_slash base @ rest
   \<and> (\<not> startsWith p ''/api'' \<and> p \<noteq> [] \<longrightarrow>
        url (axiosConfig base t sid (req\<lparr>req_originalUrl := Some p\<rparr>))
          = without_trailing_slash base @ p)
   \<and> without_trailing_slash (b @ ''/'') = b
   \<and> (b = [] \<or> last b \<noteq> CHR ''/'' \<longrightarrow> without_trailing_slash b = b)
   \<and> url (axiosConfig ''https://up.example'' t sid (req\<lparr>req_originalUrl := Some ''/api/foo/bar''\<rparr>))
     = ''https://up.example/foo/bar''"
proof -
  have a: "originalPath (req\<lparr>req_originalUrl := Some (''/api'' @ rest)\<rparr>) = ''/api'' @ rest"
    by (simp add: originalPath_def)
  have b: "p \<noteq> [] \<Longrightarrow> originalPath (req\<lparr>req_originalUrl := Some p\<rparr>) = p"
    by (simp add: originalPath_def)
  have c: "originalPath (req\<lparr>req_originalUrl := Some ''/api/foo/bar''\<rparr>) = ''/api/foo/bar''"
    by (simp add: originalPath_def)
  have d: "without_trailing_slash ''https://up.example'' = ''https://up.example''"
    by (simp add: without_trailing_slash_def)
  have e: "pathWithoutApi ''/api/foo/bar'' = ''/foo/bar''"
    by (simp add: pathWithoutApi_def startsWith_def)
  have 1: "url (axiosConfig base t sid (req\<lparr>req_originalUrl := Some (''/api'' @ rest)\<rparr>))
     = without_trailing_slash base @ rest"
    by (simp only: axiosConfig_def targetUrl_def a pathWithoutApi_prefixed axios_config.simps)
  have 2: "\<not> startsWith p ''/api'' \<and> p \<noteq> [] \<longrightarrow>
        url (axiosConfig base t sid (req\<lparr>req_originalUrl := Some p\<rparr>))
          = without_trailing_slash base @ p"
    by (simp add: axiosConfig_def targetUrl_def b pathWithoutApi_def)
  have 3: "without_trailing_slash (b @ ''/'') = b"
    by (simp add: without_trailing_slash_def)
  have 4: "b = [] \<or> last b \<noteq> CHR ''/'' \<longrightarrow> without_trailing_slash b = b"
    by (auto simp: without_trailing_slash_def)
  have 5: "url (axiosConfig ''https://up.example'' t sid (req\<lparr>req_originalUrl := Some ''/api/foo/bar''\<rparr>))
     = ''https://up.example/foo/bar''"
    by (simp add: axiosConfig_def targetUrl_def c d e)
  show ?thesis using 1 2 3 4 5 by blast
qed

theorem targetUrl_strips_api_prefix_witness:
  "url (axiosConfig ''https://up.example/'' 1000 ''us-x'' (get_request ''/api/v1'' Map.empty))
     = ''https://up.example/api/v1''
   \<and> url (axiosConfig ''https://up.example'' 1000 ''us-x''
        ((get_request ''/v1'' Map.empty)\<lparr>req_originalUrl := Some ''/v1''\<rparr>))
     = ''https://up.example/v1''
   \<and> without_trailing_slash ''https://up.example//'' = ''https://up.example/''"
  using targetUrl_strips_api_prefix [where base = "''https://up.example/''" and t = 1000
      and sid = "''us-x''" and req = "get_request ''/api/v1'' Map.empty" and rest = "''/api/v1''"
      and p = "''/v1''" and b = "''https://up.example/''"]
    targetUrl_strips_api_prefix [where base = "''https://up.example''" and t = 1000
      and sid = "''us-x''" and req = "get_request ''/v1'' Map.empty" and rest = "''/v1''"
      and p = "''/v1''" and b = "''https://up.example''"]
  by (simp add: get_request_def startsWith_def without_trailing_slash_def)

section \<open>Properties of the token normalization\<close>

lemma occurrences_prefixed:
  "occurrences ''us-'' (''us-'' @ b) = 1 + occurrences ''us-'' b"
  by (simp add: startsWith_def)

lemma startsWith_split: "startsWith s ''us-'' \<Longrightarrow> s = ''us-'' @ drop 3 s"
  unfolding startsWith_def
  by (metis append_take_drop_id length_Cons list.size(3) numeral_3_eq_3)

text \<open>
  C8 as amended. The normalized token always begins with the prefix us-; a token
  that already begins with it is returned as it is, and any other token gets the
  prefix put in front once; normalizing a normalized token changes nothing. The
  prefix occurs in the result once more than in the rest of the stored token
  (the token without its leading us-, when it had one): so it is present exactly
  once exactly when that rest does not contain it.
\<close>

theorem normalize_session_prefix_once:
  "startsWith (normalize_session s) ''us-''
   \<and> normalize_session s = (if startsWith s ''us-'' then s else ''us-'' @ s)
   \<and> normalize_session (normalize_session s) = normalize_session s
   \<and> occurrences ''us-'' (normalize_session s)
       = 1 + occurrences ''us-'' (if startsWith s ''us-'' then drop 3 s else s)"
proof -
  have st: "startsWith (normalize_session s) ''us-''"
    by (simp add: normalize_session_def startsWith_def)
  have idem: "normalize_session (normalize_session s) = normalize_session s"
    using st by (simp add: normalize_session_def [of "normalize_session s"])
  have occ: "occurrences ''us-'' (normalize_session s)
       = 1 + occurrences ''us-'' (if startsWith s ''us-'' then drop 3 s else s)"
  proof (cases "startsWith s ''us-''")
    case True
    have "occurrences ''us-'' (''us-'' @ drop 3 s) = 1 + occurrences ''us-'' (drop 3 s)"
      by (rule occurrences_prefixed)
    then have "occurrences ''us-'' s = 1 + occurrences ''us-'' (drop 3 s)"
      by (simp only: startsWith_split [OF True, symmetric])
    then show ?thesis using True by (simp add: normalize_session_def)
  next
    case False
    then show ?thesis
      using occurrences_prefixed [of s] by (simp add: normalize_session_def)
  qed
  show ?thesis using st idem occ by (simp add: normalize_session_def)
qed

theorem normalize_session_prefix_once_witness:
  "normalize_session ''abc'' = ''us-abc'' \<and> normalize_session ''us-abc'' = ''us-abc''
   \<and> occurrences ''us-'' (normalize_session ''abc'') = 1"
  using normalize_session_prefix_once [of "''abc''"] normalize_session_prefix_once [of "''us-abc''"]
  by (simp add: startsWith_def)

theorem normalize_session_twice_counterexample:
  "normalize_session ''us-us-abc'' = ''us-us-abc''
   \<and> occurrences ''us-'' (normalize_session ''us-us-abc'') = 2
   \<and> occurrences ''us-'' (normalize_session ''aus-b'') = 2"
  by (simp add: normalize_session_def startsWith_def)

section \<open>Properties of the failure classification\<close>

lemma available_truthy: "a \<in> set (available all) \<Longrightarrow> truthy (sessionid a)"
  by (simp add: available_def)

lemma axios_always_valid:
  "validateStatus cfg = (\<lambda>st. True) \<Longrightarrow>
   axios wire cfg = (case wire cfg of Answered resp \<Rightarrow> Responded resp
                                     | TransportFailed e \<Rightarrow> Rejected e)"
  by (simp add: axios_def split: wire_outcome.splits)

lemma dispatch_forwarded:
  assumes "base \<noteq> []"
    and "\<not> startsWith (req_path req) ''/dreamina''"
    and "\<not> startsWith (req_path req) ''/events''"
    and "available all \<noteq> []"
  shows "\<exists>a sid. fst (pickAccount all rr) = Some a \<and> sessionid a = Some sid \<and> sid \<noteq> [] \<and>
           dispatch base t wire all rr req =
             (case wire (axiosConfig base t (normalize_session sid) req) of
                Answered resp \<Rightarrow> on_response resp
              | TransportFailed e \<Rightarrow> on_error e,
              (rr + 1) mod length (available all))"
proof -
  let ?a = "available all ! ((rr + 1) mod length (available all))"
  have "?a \<in> set (available all)" using assms(4) by simp
  then have "truthy (sessionid ?a)" by (rule available_truthy)
  then obtain sid where sid: "sessionid ?a = Some sid" "sid \<noteq> []"
    by (auto simp: truthy_def split: option.splits)
  have valid: "validateStatus (axiosConfig base t (normalize_session sid) req) = (\<lambda>st. True)"
    by (simp add: axiosConfig_def)
  have "dispatch base t wire all rr req =
          (case wire (axiosConfig base t (normalize_session sid) req) of
             Answered resp \<Rightarrow> on_response resp
           | TransportFailed e \<Rightarrow> on_error e,
           (rr + 1) mod length (available all))"
    using assms sid
    by (simp add: dispatch_def pickAccount_nonempty truthy_def axios_always_valid [OF valid]
        split: wire_outcome.splits)
  moreover have "fst (pickAccount all rr) = Some ?a"
    using assms(4) by (simp add: pickAccount_nonempty)
  ultimately show ?thesis using sid by blast
qed

lemma on_error_status:
  "status (on_error e) =
     (if code e = Some ''ECONNABORTED''
         \<or> (\<exists>msg. message e = Some msg \<and> str_includes (toLowerCase msg) ''timeout'')
      then 504 else 502)"
proof -
  have nonempty: "str_includes s ''timeout'' \<Longrightarrow> s \<noteq> []" for s
    by (cases s) auto
  have "is_timeout e =
          (code e = Some ''ECONNABORTED''
           \<or> (\<exists>msg. message e = Some msg \<and> str_includes (toLowerCase msg) ''timeout''))"
    using nonempty by (auto simp: is_timeout_def toLowerCase_def split: option.splits)
  then show ?thesis by (simp add: on_error_def)
qed

text \<open>
  C3 as amended. Whenever a request is forwarded (a target is configured, the
  path is not a reserved one, an account is available), then for every method
  and every behaviour of the network: when the call fails in transport with an
  error e, the reply is the error reply for e, whose status is 504 when the code
  of e is ECONNABORTED or its lower-cased message contains timeout, and 502 for
  every other error; when the upstream answers, with whatever status, the reply
  relays that status and body and is never the error reply. The configuration
  the handler passes accepts every status.
\<close>

theorem dispatch_failure_classification:
  assumes "base \<noteq> []"
    and "\<not> startsWith (req_path req) ''/dreamina''"
    and "\<not> startsWith (req_path req) ''/events''"
    and "available all \<noteq> []"
  shows "\<exists>a sid. fst (pickAccount all rr) = Some a \<and> sessionid a = Some sid \<and>
           (\<forall>m. validateStatus (axiosConfig base t (normalize_session sid) (req\<lparr>req_method := m\<rparr>)) st
               \<and> (case wire (axiosConfig base t (normalize_session sid) (req\<lparr>req_method := m\<rparr>)) of
                     Answered resp \<Rightarrow>
                       fst (dispatch base t wire all rr (req\<lparr>req_method := m\<rparr>)) = on_response resp
                       \<and> status (on_response resp) = resp_status resp
                       \<and> sent (on_response resp) = RelayedData (resp_data resp)
                   | TransportFailed e \<Rightarrow>
                       fst (dispatch base t wire all rr (req\<lparr>req_method := m\<rparr>)) = on_error e
                       \<and> status (on_error e) =
                           (if code e = Some ''ECONNABORTED''
                               \<or> (\<exists>msg. message e = Some msg
                                      \<and> str_includes (toLowerCase msg) ''timeout'')
                            then 504 else 502)))"
proof -
  obtain a sid where a: "fst (pickAccount all rr) = Some a" and sid: "sessionid a = Some sid"
    using dispatch_forwarded [OF assms, of rr t wire] by blast
  have fwd: "fst (dispatch base t wire all rr (req\<lparr>req_method := m\<rparr>)) =
          (case wire (axiosConfig base t (normalize_session sid) (req\<lparr>req_method := m\<rparr>)) of
             Answered resp \<Rightarrow> on_response resp
           | TransportFailed e \<Rightarrow> on_error e)" for m
  proof -
    obtain a' sid' where "fst (pickAccount all rr) = Some a'" "sessionid a' = Some sid'"
      and d: "dispatch base t wire all rr (req\<lparr>req_method := m\<rparr>) =
             (case wire (axiosConfig base t (normalize_session sid') (req\<lparr>req_method := m\<rparr>)) of
                Answered resp \<Rightarrow> on_response resp
              | TransportFailed e \<Rightarrow> on_error e,
              (rr + 1) mod length (available all))"
      using dispatch_forwarded [of base "req\<lparr>req_method := m\<rparr>" all rr t wire] assms by auto
    then have "sid' = sid" using a sid by simp
    then show ?thesis using d by simp
  qed
  have valid: "validateStatus (axiosConfig base t (normalize_session sid) (req\<lparr>req_method := m\<rparr>)) st" for m
    by (simp add: axiosConfig_def)
  have resp: "status (on_response resp) = resp_status resp
       \<and> sent (on_response resp) = RelayedData (resp_data resp)" for resp
    by (simp add: on_response_def)
  have "\<forall>m. validateStatus (axiosConfig base t (normalize_session sid) (req\<lparr>req_method := m\<rparr>)) st
               \<and> (case wire (axiosConfig base t (normalize_session sid) (req\<lparr>req_method := m\<rparr>)) of
                     Answered resp \<Rightarrow>
                       fst (dispatch base t wire all rr (req\<lparr>req_method := m\<rparr>)) = on_response resp
                       \<and> status (on_response resp) = resp_status resp
                       \<and> sent (on_response resp) = RelayedData (resp_data resp)
                   | TransportFailed e \<Rightarrow>
                       fst (dispatch base t wire all rr (req\<lparr>req_method := m\<rparr>)) = on_error e
                       \<and> status (on_error e) =
                           (if code e = Some ''ECONNABORTED''
                               \<or> (\<exists>msg. message e = Some msg
                                      \<and> str_includes (toLowerCase msg) ''timeout'')
                            then 504 else 502))"
    using fwd valid resp on_error_status by (auto split: wire_outcome.splits)
  then show ?thesis using a sid by blast
qed


theorem dispatch_failure_classification_witness:
  "status (fst (dispatch ''https://up.example'' 5
       (\<lambda>cfg. TransportFailed \<lparr>code = Some ''ECONNABORTED'', message = Some ''aborted''\<rparr>)
       [acct ''a'' (Some ''s1'')] 0 ((get_request ''/v1'' Map.empty)\<lparr>req_method := ''POST''\<rparr>))) = 504
   \<and> status (fst (dispatch ''https://up.example'' 5
       (\<lambda>cfg. TransportFailed \<lparr>code = None, message = Some ''Timeout hit''\<rparr>)
       [acct ''a'' (Some ''s1'')] 0 ((get_request ''/v1'' Map.empty)\<lparr>req_method := ''GET''\<rparr>))) = 504
   \<and> status (fst (dispatch ''https://up.example'' 5
       (\<lambda>cfg. TransportFailed \<lparr>code = Some ''ECONNREFUSED'', message = Some ''refused''\<rparr>)
       [acct ''a'' (Some ''s1'')] 0 ((get_request ''/v1'' Map.empty)\<lparr>req_method := ''PUT''\<rparr>))) = 502
   \<and> fst (dispatch ''https://up.example'' 5
       (\<lambda>cfg. if http_method cfg = ''POST''
              then Answered \<lparr>resp_status = 500, resp_headers = [], resp_data = Some ''error''\<rparr>
              else TransportFailed \<lparr>code = Some ''ECONNREFUSED'', message = Some ''refused''\<rparr>)
       [acct ''a'' (Some ''s1'')] 0 ((get_request ''/v1'' Map.empty)\<lparr>req_method := ''POST''\<rparr>))
      = \<lparr>status = 500, sent = RelayedData (Some ''error''), relayed_headers = [], cors = True\<rparr>"
proof -
  let ?all = "[acct ''a'' (Some ''s1'')]"
  let ?req = "get_request ''/v1'' Map.empty"
  have h1: "''https://up.example'' \<noteq> []" by simp
  have h2: "\<not> startsWith (req_path ?req) ''/dreamina''"
    by (simp add: get_request_def startsWith_def)
  have h3: "\<not> startsWith (req_path ?req) ''/events''"
    by (simp add: get_request_def startsWith_def)
  have h4: "available ?all \<noteq> []"
    by (simp add: available_def acct_def truthy_def)
  have t1: "str_includes (toLowerCase ''Timeout hit'') ''timeout''"
    by (simp add: toLowerCase_def lower_char_def startsWith_def)
  have t2: "\<not> str_includes (toLowerCase ''refused'') ''timeout''"
    by (simp add: toLowerCase_def lower_char_def startsWith_def)
  have t3: "\<not> str_includes (toLowerCase ''aborted'') ''timeout''"
    by (simp add: toLowerCase_def lower_char_def startsWith_def)
  note th = dispatch_failure_classification [OF h1 h2 h3 h4, where rr = 0 and t = 5 and st = 500]
  have c1: "status (fst (dispatch ''https://up.example'' 5
       (\<lambda>cfg. TransportFailed \<lparr>code = Some ''ECONNABORTED'', message = Some ''aborted''\<rparr>)
       ?all 0 (?req\<lparr>req_method := ''POST''\<rparr>))) = 504"
  proof -
    from th [where wire = "\<lambda>cfg. TransportFailed \<lparr>code = Some ''ECONNABORTED'', message = Some ''aborted''\<rparr>"]
    obtain a sid where all_m: "\<forall>m. validateStatus (axiosConfig ''https://up.example'' 5 (normalize_session sid) (?req\<lparr>req_method := m\<rparr>)) 500
        \<and> (case TransportFailed \<lparr>code = Some ''ECONNABORTED'', message = Some ''aborted''\<rparr> of
              Answered resp \<Rightarrow>
                fst (dispatch ''https://up.example'' 5
                  (\<lambda>cfg. TransportFailed \<lparr>code = Some ''ECONNABORTED'', message = Some ''aborted''\<rparr>)
                  ?all 0 (?req\<lparr>req_method := m\<rparr>)) = on_response resp
                \<and> status (on_response resp) = resp_status resp
                \<and> sent (on_response resp) = RelayedData (resp_data resp)
            | TransportFailed e \<Rightarrow>
                fst (dispatch ''https://up.example'' 5
                  (\<lambda>cfg. TransportFailed \<lparr>code = Some ''ECONNABORTED'', message = Some ''aborted''\<rparr>)
                  ?all 0 (?req\<lparr>req_method := m\<rparr>)) = on_error e
                \<and> status (on_error e) =
                    (if code e = Some ''ECONNABORTED''
                        \<or> (\<exists>msg. message e = Some msg \<and> str_includes (toLowerCase msg) ''timeout'')
                     then 504 else 502))"
      by blast
    show ?thesis using spec [OF all_m, of "''POST''"] by simp
  qed
  have c2: "status (fst (dispatch ''https://up.example'' 5
       (\<lambda>cfg. TransportFailed \<lparr>code = None, message = Some ''Timeout hit''\<rparr>)
       ?all 0 (?req\<lparr>req_method := ''GET''\<rparr>))) = 504"
  proof -
    from th [where wire = "\<lambda>cfg. TransportFailed \<lparr>code = None, message = Some ''Timeout hit''\<rparr>"]
    obtain a sid where all_m: "\<forall>m. validateStatus (axiosConfig ''https://up.example'' 5 (normalize_session sid) (?req\<lparr>req_method := m\<rparr>)) 500
        \<and> (case TransportFailed \<lparr>code = None, message = Some ''Timeout hit''\<rparr> of
              Answered resp \<Rightarrow>
                fst (dispatch ''https://up.example'' 5
                  (\<lambda>cfg. TransportFailed \<lparr>code = None, message = Some ''Timeout hit''\<rparr>)
                  ?all 0 (?req\<lparr>req_method := m\<rparr>)) = on_response resp
                \<and> status (on_response resp) = resp_status resp
                \<and> sent (on_response resp) = RelayedData (resp_data resp)
            | TransportFailed e \<Rightarrow>
                fst (dispatch ''https://up.example'' 5
                  (\<lambda>cfg. TransportFailed \<lparr>code = None, message = Some ''Timeout hit''\<rparr>)
                  ?all 0 (?req\<lparr>req_method := m\<rparr>)) = on_error e
                \<and> status (on_error e) =
                    (if code e = Some ''ECONNABORTED''
                        \<or> (\<exists>msg. message e = Some msg \<and> str_includes (toLowerCase msg) ''timeout'')
                     then 504 else 502))"
      by blast
    show ?thesis using spec [OF all_m, of "''GET''"] t1 by simp
  qed
  have c3: "status (fst (dispatch ''https://up.example'' 5
       (\<lambda>cfg. TransportFailed \<lparr>code = Some ''ECONNREFUSED'', message = Some ''refused''\<rparr>)
       ?all 0 (?req\<lparr>req_method := ''PUT''\<rparr>))) = 502"
  proof -
    from th [where wire = "\<lambda>cfg. TransportFailed \<lparr>code = Some ''ECONNREFUSED'', message = Some ''refused''\<rparr>"]
    obtain a sid where all_m: "\<forall>m. validateStatus (axiosConfig ''https://up.example'' 5 (normalize_session sid) (?req\<lparr>req_method := m\<rparr>)) 500
        \<and> (case TransportFailed \<lparr>code = Some ''ECONNREFUSED'', message = Some ''refused''\<rparr> of
              Answered resp \<Rightarrow>
                fst (dispatch ''https://up.example'' 5
                  (\<lambda>cfg. TransportFailed \<lparr>code = Some ''ECONNREFUSED'', message = Some ''refused''\<rparr>)
                  ?all 0 (?req\<lparr>req_method := m\<rparr>)) = on_response resp
                \<and> status (on_response resp) = resp_status resp
                \<and> sent (on_response resp) = RelayedData (resp_data resp)
            | TransportFailed e \<Rightarrow>
                fst (dispatch ''https://up.example'' 5
                  (\<lambda>cfg. TransportFailed \<lparr>code = Some ''ECONNREFUSED'', message = Some ''refused''\<rparr>)
                  ?all 0 (?req\<lparr>req_method := m\<rparr>)) = on_error e
                \<and> status (on_error e) =
                    (if code e = Some ''ECONNABORTED''
                        \<or> (\<exists>msg. message e = Some msg \<and> str_includes (toLowerCase msg) ''timeout'')
                     then 504 else 502))"
      by blast
    show ?thesis using spec [OF all_m, of "''PUT''"] t2 by simp
  qed
  have c4: "fst (dispatch ''https://up.example'' 5
       (\<lambda>cfg. if http_method cfg = ''POST''
              then Answered \<lparr>resp_status = 500, resp_headers = [], resp_data = Some ''error''\<rparr>
              else TransportFailed \<lparr>code = Some ''ECONNREFUSED'', message = Some ''refused''\<rparr>)
       ?all 0 (?req\<lparr>req_method := ''POST''\<rparr>))
      = \<lparr>status = 500, sent = RelayedData (Some ''error''), relayed_headers = [], cors = True\<rparr>"
    by (simp add: dispatch_def pickAccount_def available_def acct_def truthy_def axios_def
        axiosConfig_def get_request_def startsWith_def on_response_def)
  show ?thesis using c1 c2 c3 c4 by simp
qed

theorem dispatch_connect_timeout_counterexample:
  "status (fst (dispatch ''https://up.example'' 5
       (\<lambda>cfg. TransportFailed \<lparr>code = Some ''ETIMEDOUT'',
                                message = Some ''connect ETIMEDOUT 10.0.0.1:443''\<rparr>)
       [acct ''a'' (Some ''s1'')] 0 (get_request ''/v1'' Map.empty))) = 502
   \<and> status (fst (dispatch ''https://up.example'' 5
       (\<lambda>cfg. TransportFailed \<lparr>code = Some ''ENOTFOUND'',
                                message = Some ''getaddrinfo ENOTFOUND timeout-svc.example''\<rparr>)
       [acct ''a'' (Some ''s1'')] 0 (get_request ''/v1'' Map.empty))) = 504"
  by (simp add: dispatch_def pickAccount_def available_def acct_def truthy_def axios_def
      axiosConfig_def get_request_def startsWith_def on_error_def is_timeout_def
      toLowerCase_def lower_char_def)

section \<open>Properties of the outbound headers\<close>

lemma delete_if_set_apply:
  "delete_if_set k hs k' = (if k' = k \<and> truthy (hs k) then None else hs k')"
  by (simp add: delete_if_set_def)

lemma clean_header_other:
  "k \<noteq> h \<Longrightarrow> k \<noteq> capitalize h \<Longrightarrow> clean_header h hs k = hs k"
  by (simp add: clean_header_def delete_if_set_apply)

lemma clean_header_removed:
  "k = h \<or> k = capitalize h \<Longrightarrow> truthy (hs k) \<Longrightarrow> clean_header h hs k = None"
  by (auto simp: clean_header_def delete_if_set_apply truthy_def)

lemma clean_header_keeps_None: "hs k = None \<Longrightarrow> clean_header h hs k = None"
  by (simp add: clean_header_def delete_if_set_apply)

lemma fold_clean_keeps_None: "hs k = None \<Longrightarrow> fold clean_header names hs k = None"
  by (induction names arbitrary: hs) (simp_all add: clean_header_keeps_None)

lemma fold_clean_other:
  "k \<notin> set names \<Longrightarrow> k \<notin> capitalize ` set names \<Longrightarrow> fold clean_header names hs k = hs k"
  by (induction names arbitrary: hs) (simp_all add: clean_header_other)

lemma fold_clean_removed:
  "k \<in> set names \<union> capitalize ` set names \<Longrightarrow> truthy (hs k) \<Longrightarrow>
   fold clean_header names hs k = None"
proof (induction names arbitrary: hs)
  case Nil
  then show ?case by simp
next
  case (Cons h names)
  show ?case
  proof (cases "k = h \<or> k = capitalize h")
    case True
    then have "clean_header h hs k = None"
      using Cons.prems(2) by (rule clean_header_removed)
    then show ?thesis by (simp add: fold_clean_keeps_None)
  next
    case False
    then have same: "clean_header h hs k = hs k" by (simp add: clean_header_other)
    have "k \<in> set names \<union> capitalize ` set names" using Cons.prems(1) False by auto
    then have "fold clean_header names (clean_header h hs) k = None"
      using Cons.IH [of "clean_header h hs"] same Cons.prems(2) by simp
    then show ?thesis by simp
  qed
qed

lemma cleaned_names_lower:
  "h \<in> set cleaned_names \<Longrightarrow> toLowerCase (capitalize h) = h \<and> toLowerCase h = h"
  by (auto simp: cleaned_names_def capitalize_def toUpperCase_def upper_char_def
      toLowerCase_def lower_char_def)

lemma authorization_not_cleaned:
  "''authorization'' \<notin> set cleaned_names \<and> toLowerCase ''authorization'' = ''authorization''"
  by (simp add: cleaned_names_def toLowerCase_def lower_char_def)

lemma outbound_headers_lower:
  assumes lower: "\<forall>k. hs k \<noteq> None \<longrightarrow> toLowerCase k = k"
  shows "outbound_headers hs tok ''authorization'' = Some (''Bearer '' @ tok)"
    and "toLowerCase k = ''authorization'' \<Longrightarrow> k \<noteq> ''authorization'' \<Longrightarrow>
         outbound_headers hs tok k = None"
    and "toLowerCase k \<in> set cleaned_names \<Longrightarrow> hs k \<noteq> Some [] \<Longrightarrow>
         outbound_headers hs tok k = None"
    and "toLowerCase k \<notin> set cleaned_names \<Longrightarrow> toLowerCase k \<noteq> ''authorization'' \<Longrightarrow>
         outbound_headers hs tok k = hs k"
proof -
  show "outbound_headers hs tok ''authorization'' = Some (''Bearer '' @ tok)"
    by (simp add: outbound_headers_def)
next
  assume k: "toLowerCase k = ''authorization''" "k \<noteq> ''authorization''"
  then have "hs k = None" using lower by force
  then show "outbound_headers hs tok k = None"
    using k(2) by (simp add: outbound_headers_def fold_clean_keeps_None)
next
  assume k: "toLowerCase k \<in> set cleaned_names" "hs k \<noteq> Some []"
  have na: "k \<noteq> ''authorization''" using k(1) authorization_not_cleaned by auto
  have "fold clean_header cleaned_names hs k = None"
  proof (cases "hs k")
    case None
    then show ?thesis by (rule fold_clean_keeps_None)
  next
    case (Some v)
    then have "toLowerCase k = k" using lower by simp
    then have "k \<in> set cleaned_names \<union> capitalize ` set cleaned_names" using k(1) by simp
    moreover have "truthy (hs k)" using Some k(2) by (simp add: truthy_def)
    ultimately show ?thesis by (rule fold_clean_removed)
  qed
  then show "outbound_headers hs tok k = None" using na by (simp add: outbound_headers_def)
next
  assume k: "toLowerCase k \<notin> set cleaned_names" "toLowerCase k \<noteq> ''authorization''"
  have na: "k \<noteq> ''authorization''" using k(2) authorization_not_cleaned by auto
  have "fold clean_header cleaned_names hs k = hs k"
  proof (cases "hs k")
    case None
    then show ?thesis by (simp add: fold_clean_keeps_None)
  next
    case (Some v)
    then have low: "toLowerCase k = k" using lower by simp
    then have "k \<notin> set cleaned_names" using k(1) by simp
    moreover have "k \<notin> capitalize ` set cleaned_names"
    proof
      assume "k \<in> capitalize ` set cleaned_names"
      then obtain h where "h \<in> set cleaned_names" "k = capitalize h" by blast
      then have "toLowerCase k \<in> set cleaned_names" using cleaned_names_lower by simp
      then show False using k(1) by simp
    qed
    ultimately show ?thesis by (rule fold_clean_other)
  qed
  then show "outbound_headers hs tok k = hs k" using na by (simp add: outbound_headers_def)
qed


text \<open>
  C4 as amended. Take a forwarded request whose header object has its names in
  lower case, as the HTTP server hands it over. The configuration the handler
  passes to the HTTP client is built from the selected account's normalized token,
  and in its headers: authorization is Bearer followed by that token, and no
  header under another capitalization of that name is present (the inbound value
  is replaced, not kept beside it); a header whose name is, in whatever
  capitalization, one of host, connection, content-length, transfer-encoding and
  expect is removed when its inbound value is not empty; every header under any
  other name is passed through unchanged.
\<close>

theorem outbound_headers_cleaned:
  assumes "base \<noteq> []"
    and "\<not> startsWith (req_path req) ''/dreamina''"
    and "\<not> startsWith (req_path req) ''/events''"
    and "available all \<noteq> []"
    and lower: "\<forall>k. req_headers req k \<noteq> None \<longrightarrow> toLowerCase k = k"
  shows "\<exists>a sid cfg. fst (pickAccount all rr) = Some a \<and> sessionid a = Some sid
       \<and> cfg = axiosConfig base t (normalize_session sid) req
       \<and> fst (dispatch base t wire all rr req)
           = (case wire cfg of Answered resp \<Rightarrow> on_response resp
                             | TransportFailed e \<Rightarrow> on_error e)
       \<and> headers cfg ''authorization'' = Some (''Bearer '' @ normalize_session sid)
       \<and> (\<forall>k. toLowerCase k = ''authorization'' \<and> k \<noteq> ''authorization'' \<longrightarrow> headers cfg k = None)
       \<and> (\<forall>k. toLowerCase k \<in> set [''host'', ''connection'', ''content-length'',
                                     ''transfer-encoding'', ''expect'']
              \<and> req_headers req k \<noteq> Some []
            \<longrightarrow> headers cfg k = None)
       \<and> (\<forall>k. toLowerCase k \<notin> set [''host'', ''connection'', ''content-length'',
                                     ''transfer-encoding'', ''expect'']
              \<and> toLowerCase k \<noteq> ''authorization''
            \<longrightarrow> headers cfg k = req_headers req k)"
proof -
  obtain a sid where a: "fst (pickAccount all rr) = Some a" and sid: "sessionid a = Some sid"
    and d: "dispatch base t wire all rr req =
             (case wire (axiosConfig base t (normalize_session sid) req) of
                Answered resp \<Rightarrow> on_response resp
              | TransportFailed e \<Rightarrow> on_error e,
              (rr + 1) mod length (available all))"
    using dispatch_forwarded [OF assms(1-4), of rr t wire] by blast
  let ?cfg = "axiosConfig base t (normalize_session sid) req"
  have hd: "headers ?cfg = outbound_headers (req_headers req) (normalize_session sid)"
    by (simp add: axiosConfig_def)
  have names: "set [''host'', ''connection'', ''content-length'', ''transfer-encoding'', ''expect'']
                 = set cleaned_names"
    by (simp add: cleaned_names_def)
  note ob = outbound_headers_lower [OF lower, where tok = "normalize_session sid"]
  have 1: "headers ?cfg ''authorization'' = Some (''Bearer '' @ normalize_session sid)"
    unfolding hd by (rule ob(1))
  have 2: "\<forall>k. toLowerCase k = ''authorization'' \<and> k \<noteq> ''authorization'' \<longrightarrow> headers ?cfg k = None"
    unfolding hd using ob(2) by blast
  have 3: "\<forall>k. toLowerCase k \<in> set [''host'', ''connection'', ''content-length'',
                                     ''transfer-encoding'', ''expect'']
              \<and> req_headers req k \<noteq> Some []
            \<longrightarrow> headers ?cfg k = None"
    unfolding hd names using ob(3) by blast
  have 4: "\<forall>k. toLowerCase k \<notin> set [''host'', ''connection'', ''content-length'',
                                     ''transfer-encoding'', ''expect'']
              \<and> toLowerCase k \<noteq> ''authorization''
            \<longrightarrow> headers ?cfg k = req_headers req k"
    unfolding hd names using ob(4) by blast
  have 0: "fst (dispatch base t wire all rr req)
           = (case wire ?cfg of Answered resp \<Rightarrow> on_response resp
                              | TransportFailed e \<Rightarrow> on_error e)"
    using d by simp
  show ?thesis using a sid 0 1 2 3 4 by blast
qed

lemma inbound_headers_lower: "\<forall>k. inbound_headers k \<noteq> None \<longrightarrow> toLowerCase k = k"
  by (auto simp: inbound_headers_def toLowerCase_def lower_char_def split: if_splits)

theorem outbound_headers_cleaned_witness:
  "headers (axiosConfig ''https://up.example'' 5 (normalize_session ''s1'')
      (get_request ''/v1'' inbound_headers)) ''host'' = None
   \<and> headers (axiosConfig ''https://up.example'' 5 (normalize_session ''s1'')
      (get_request ''/v1'' inbound_headers)) ''accept'' = Some ''*/*''
   \<and> headers (axiosConfig ''https://up.example'' 5 (normalize_session ''s1'')
      (get_request ''/v1'' inbound_headers)) ''authorization'' = Some ''Bearer us-s1''
   \<and> headers (axiosConfig ''https://up.example'' 5 (normalize_session ''s1'')
      (get_request ''/v1'' inbound_headers)) ''Authorization'' = None"
proof -
  let ?all = "[acct ''a'' (Some ''s1'')]"
  let ?req = "get_request ''/v1'' inbound_headers"
  let ?wire = "\<lambda>cfg. Answered \<lparr>resp_status = 200, resp_headers = [], resp_data = None\<rparr>"
  have h1: "''https://up.example'' \<noteq> []" by simp
  have h2: "\<not> startsWith (req_path ?req) ''/dreamina''"
    by (simp add: get_request_def startsWith_def)
  have h3: "\<not> startsWith (req_path ?req) ''/events''"
    by (simp add: get_request_def startsWith_def)
  have h4: "available ?all \<noteq> []"
    by (simp add: available_def acct_def truthy_def)
  have h5: "\<forall>k. req_headers ?req k \<noteq> None \<longrightarrow> toLowerCase k = k"
    using inbound_headers_lower by (simp add: get_request_def)
  have pick: "fst (pickAccount ?all 0) = Some (acct ''a'' (Some ''s1''))"
    by (simp add: pickAccount_def available_def acct_def truthy_def)
  from outbound_headers_cleaned [OF h1 h2 h3 h4 h5, of 0 5 ?wire]
  obtain a sid cfg where a: "fst (pickAccount ?all 0) = Some a" and sid: "sessionid a = Some sid"
    and cfg: "cfg = axiosConfig ''https://up.example'' 5 (normalize_session sid) ?req"
    and au: "headers cfg ''authorization'' = Some (''Bearer '' @ normalize_session sid)"
    and other: "\<forall>k. toLowerCase k = ''authorization'' \<and> k \<noteq> ''authorization'' \<longrightarrow> headers cfg k = None"
    and rm: "\<forall>k. toLowerCase k \<in> set [''host'', ''connection'', ''content-length'',
                                     ''transfer-encoding'', ''expect'']
              \<and> req_headers ?req k \<noteq> Some []
            \<longrightarrow> headers cfg k = None"
    and keep: "\<forall>k. toLowerCase k \<notin> set [''host'', ''connection'', ''content-length'',
                                     ''transfer-encoding'', ''expect'']
              \<and> toLowerCase k \<noteq> ''authorization''
            \<longrightarrow> headers cfg k = req_headers ?req k"
    by blast
  have "a = acct ''a'' (Some ''s1'')" using a pick by simp
  then have s1: "sid = ''s1''" using sid by (simp add: acct_def)
  have c1: "headers cfg ''host'' = None"
    using spec [OF rm, of "''host''"]
    by (simp add: toLowerCase_def lower_char_def get_request_def inbound_headers_def)
  have c2: "headers cfg ''accept'' = Some ''*/*''"
    using spec [OF keep, of "''accept''"]
    by (simp add: toLowerCase_def lower_char_def get_request_def inbound_headers_def)
  have c3: "headers cfg ''authorization'' = Some ''Bearer us-s1''"
    using au s1 by (simp add: normalize_session_def startsWith_def)
  have c4: "headers cfg ''Authorization'' = None"
    using spec [OF other, of "''Authorization''"]
    by (simp add: toLowerCase_def lower_char_def)
  show ?thesis using c1 c2 c3 c4 cfg s1 by simp
qed

theorem outbound_headers_empty_value_counterexample:
  "headers (axiosConfig ''https://up.example'' 5 (normalize_session ''s1'')
      (get_request ''/v1'' inbound_headers)) ''connection'' = Some []
   \<and> sent (fst (dispatch ''https://up.example'' 5
        (\<lambda>cfg. Answered \<lparr>resp_status = 200, resp_headers = [],
                           resp_data = headers cfg ''connection''\<rparr>)
        [acct ''a'' (Some ''s1'')] 0 (get_request ''/v1'' inbound_headers)))
       = RelayedData (Some [])
   \<and> headers (axiosConfig ''https://up.example'' 5 (normalize_session ''s1'')
      (get_request ''/v1'' inbound_headers)) ''authorization'' = Some ''Bearer us-s1''"
  by (simp add: dispatch_def pickAccount_def available_def acct_def truthy_def axios_def
      on_response_def axiosConfig_def outbound_headers_def get_request_def cleaned_names_def
      clean_header_def delete_if_set_def capitalize_def toUpperCase_def upper_char_def
      inbound_headers_def normalize_session_def startsWith_def)

section \<open>Properties of the bulk creation\<close>

lemma batch_one_skipped:
  "\<not> has_both_fields line \<Longrightarrow> batch_one tm dp line st = st"
  by (auto simp: batch_one_def has_both_fields_def Let_def split: prod.splits)

lemma batch_one_reported:
  assumes "has_both_fields line"
  shows "\<exists>m'. batch_one tm dp line (m, sc, failed) = (m', sc + 1, failed)
            \<or> batch_one tm dp line (m, sc, failed) = (m', sc, failed @ [(line_email line, ''exists'')])
            \<or> batch_one tm dp line (m, sc, failed) = (m', sc, failed @ [(line_email line, ''failed'')])"
proof -
  obtain e pw where f: "element (split_colon_from [] line) 0 = Some e"
      "element (split_colon_from [] line) (Suc 0) = Some pw"
    using assms by (auto simp: has_both_fields_def truthy_def split: option.splits)
  have le: "line_email line = e" by (simp add: line_email_def f)
  show ?thesis
    using assms f unfolding le
    by (auto simp: batch_one_def has_both_fields_def Let_def split: option.splits prod.splits)
qed

lemma batch_loop_reports:
  "\<exists>m' sc' new. batch_loop tm dp list (m, sc, failed) = (m', sc', failed @ new)
     \<and> sc' + length new = sc + length (filter has_both_fields list)
     \<and> (\<forall>(e, r) \<in> set new. (r = ''exists'' \<or> r = ''failed'')
            \<and> e \<in> line_email ` set (filter has_both_fields list))"
proof (induction list arbitrary: m sc failed)
  case Nil
  then show ?case by simp
next
  case (Cons line list)
  show ?case
  proof (cases "has_both_fields line")
    case False
    then show ?thesis
      using Cons.IH [of m sc failed] by (simp add: batch_one_skipped)
  next
    case True
    from batch_one_reported [OF True, of tm dp m sc failed]
    obtain m1 sc1 one where step: "batch_one tm dp line (m, sc, failed) = (m1, sc1, failed @ one)"
      and cnt: "sc1 + length one = sc + 1"
      and ent: "\<forall>(e, r) \<in> set one. (r = ''exists'' \<or> r = ''failed'') \<and> e = line_email line"
      by (elim exE disjE) force+
    from Cons.IH [of m1 sc1 "failed @ one"]
    obtain m' sc' new where rest: "batch_loop tm dp list (m1, sc1, failed @ one) = (m', sc', (failed @ one) @ new)"
      and cnt': "sc' + length new = sc1 + length (filter has_both_fields list)"
      and ent': "\<forall>(e, r) \<in> set new. (r = ''exists'' \<or> r = ''failed'')
            \<and> e \<in> line_email ` set (filter has_both_fields list)"
      by blast
    have "batch_loop tm dp (line # list) (m, sc, failed) = (m', sc', failed @ (one @ new))"
      using step rest by simp
    moreover have "sc' + length (one @ new) = sc + length (filter has_both_fields (line # list))"
      using cnt cnt' True by simp
    moreover have "\<forall>(e, r) \<in> set (one @ new). (r = ''exists'' \<or> r = ''failed'')
            \<and> e \<in> line_email ` set (filter has_both_fields (line # list))"
      using ent ent' True by auto
    ultimately show ?thesis by blast
  qed
qed

text \<open>
  C9 as amended. In the completion event of a bulk creation job, total is the
  number of items of the job's list; every item whose first two colon-separated
  fields are both non-empty is reported exactly once, either counted in
  successCount or listed in failed, so that successCount plus the length of failed
  is the number of such items; every entry of failed carries the email of such an
  item and the reason exists or failed. No item ends the job: a list of two parts
  gives what the second part gives when run after the first. An item without two
  non-empty fields is counted in total and reported neither way.
\<close>

theorem batch_job_reports_each_item:
  "ev_total (fst (batch_job tm dp list m)) = length list
   \<and> ev_successCount (fst (batch_job tm dp list m)) + length (ev_failed (fst (batch_job tm dp list m)))
       = length (filter has_both_fields list)
   \<and> (\<forall>(e, r) \<in> set (ev_failed (fst (batch_job tm dp list m))).
         (r = ''exists'' \<or> r = ''failed'') \<and> e \<in> line_email ` set (filter has_both_fields list))
   \<and> batch_loop tm dp (list @ rest) st = batch_loop tm dp rest (batch_loop tm dp list st)"
proof -
  obtain m' sc' new where run: "batch_loop tm dp list (m, 0, []) = (m', sc', [] @ new)"
      and cnt: "sc' + length new = 0 + length (filter has_both_fields list)"
      and ent: "\<forall>(e, r) \<in> set new. (r = ''exists'' \<or> r = ''failed'')
            \<and> e \<in> line_email ` set (filter has_both_fields list)"
    using batch_loop_reports [of tm dp list m 0 "[]"] by blast
  have ev: "fst (batch_job tm dp list m) = \<lparr>ev_total = length list, ev_successCount = sc', ev_failed = new\<rparr>"
    using run by (simp add: batch_job_def)
  have comp: "batch_loop tm dp (list @ rest) st = batch_loop tm dp rest (batch_loop tm dp list st)"
    by (induction list arbitrary: st) simp_all
  show ?thesis using cnt ent comp by (simp add: ev)
qed


theorem batch_job_reports_each_item_witness:
  "fst (batch_job tm_some_fail dp_ok [''a:pw'', ''junk'', ''bad:pw'', ''a:pw2''] (mgr True []))
     = \<lparr>ev_total = 4, ev_successCount = 1,
        ev_failed = [(''bad'', ''failed''), (''a'', ''exists'')]\<rparr>
   \<and> length (filter has_both_fields [''a:pw'', ''junk'', ''bad:pw'', ''a:pw2'']) = 3"
  using batch_job_reports_each_item [of tm_some_fail dp_ok
      "[''a:pw'', ''junk'', ''bad:pw'', ''a:pw2'']" "mgr True []" "[]" "(mgr True [], 0, [])"]
  by (simp add: batch_job_def batch_one_def addAccount_def tm_some_fail_def dp_ok_def mgr_def
      record_call_def element_def truthy_def has_both_fields_def Let_def)

theorem batch_job_skipped_line_counterexample:
  "fst (batch_job tm_ok dp_ok [''junk''] (mgr True []))
     = \<lparr>ev_total = 1, ev_successCount = 0, ev_failed = []\<rparr>
   \<and> fst (batch_job tm_ok dp_ok [''a:'', '':pw''] (mgr True []))
     = \<lparr>ev_total = 2, ev_successCount = 0, ev_failed = []\<rparr>"
  by (simp add: batch_job_def batch_one_def element_def truthy_def Let_def)

text \<open>
  The route hands the job the lines of the submitted text that are not empty
  after trimming, and answers 202 with their number.
\<close>

lemma setAccounts_runs_batch_job:
  "a \<noteq> [] \<Longrightarrow>
   setAccounts tm dp (Some a) m
     = ((202, Some (length (parse_list a))),
        Some (fst (batch_job tm dp (parse_list a) m)), snd (batch_job tm dp (parse_list a) m))"
  by (simp add: setAccounts_def Let_def split: prod.splits)

section \<open>Properties of the refresh scan\<close>

lemma findIndex_Some: "findIndex P xs = Some j \<Longrightarrow> j < length xs \<and> P (xs ! j)"
proof (induction xs arbitrary: j)
  case Nil
  then show ?case by simp
next
  case (Cons x xs)
  then show ?case by (cases "P x") auto
qed

lemma attempted_append: "attempted (cs @ ds) = attempted cs @ attempted ds"
  by (induction cs rule: attempted.induct) simp_all

lemma same_email_same_account:
  assumes "distinct (map email orig)" and "a \<in> set orig" and "b \<in> set orig"
    and "email a = email b"
  shows "a = b"
proof -
  have "inj_on email (set orig)" using assms(1) by (simp add: distinct_map)
  then show ?thesis using assms(2-4) by (auto dest: inj_onD)
qed

lemma replace_by_email_keeps_failed:
  assumes dist: "distinct (map email orig)"
    and a: "a \<in> set orig" and ok: "\<not> refresh_fails tm a"
    and len: "length (dreaminaAccounts m) = length orig"
    and inv: "\<forall>i<length orig. refresh_fails tm (orig ! i) \<longrightarrow> dreaminaAccounts m ! i = orig ! i"
  shows "length (dreaminaAccounts (replace_by_email a u m)) = length orig
       \<and> (\<forall>i<length orig. refresh_fails tm (orig ! i) \<longrightarrow>
             dreaminaAccounts (replace_by_email a u m) ! i = orig ! i)
       \<and> calls (replace_by_email a u m) = calls m
       \<and> isInitialized (replace_by_email a u m) = isInitialized m"
proof (cases "findIndex (\<lambda>acc. email acc = email a) (dreaminaAccounts m)")
  case None
  then show ?thesis using len inv by (simp add: replace_by_email_def)
next
  case (Some j)
  have j: "j < length orig" "email (dreaminaAccounts m ! j) = email a"
    using findIndex_Some [OF Some] len by auto
  have "(dreaminaAccounts m)[j := u] ! i = orig ! i"
    if i: "i < length orig" and f: "refresh_fails tm (orig ! i)" for i
  proof -
    have "i \<noteq> j"
    proof
      assume "i = j"
      then have "email (orig ! i) = email a" using inv i f j(2) by auto
      moreover have "orig ! i \<in> set orig" using i by simp
      ultimately have "orig ! i = a" using same_email_same_account [OF dist _ a] by blast
      then show False using f ok by simp
    qed
    then show ?thesis using inv i f by simp
  qed
  then show ?thesis using Some len by (simp add: replace_by_email_def)
qed

lemma refresh_one_step:
  assumes dist: "distinct (map email orig)"
    and a: "a \<in> set orig"
    and len: "length (dreaminaAccounts m) = length orig"
    and inv: "\<forall>i<length orig. refresh_fails tm (orig ! i) \<longrightarrow> dreaminaAccounts m ! i = orig ! i"
  shows "\<exists>m'. refresh_one tm dp a (m, sc, fc)
             = (m', sc + (if refresh_fails tm a \<or> save_fails tm dp a then 0 else 1),
                    fc + (if refresh_fails tm a \<or> save_fails tm dp a then 1 else 0))
       \<and> length (dreaminaAccounts m') = length orig
       \<and> (\<forall>i<length orig. refresh_fails tm (orig ! i) \<longrightarrow> dreaminaAccounts m' ! i = orig ! i)
       \<and> attempted (calls m') = attempted (calls m) @ [a]
       \<and> isInitialized m' = isInitialized m"
proof (cases "refreshSessionId tm a")
  case (Updated u)
  then have ok: "\<not> refresh_fails tm a" by (simp add: refresh_fails_def)
  have sf: "save_fails tm dp a = (\<not> saveAccount dp (email a) (refresh_payload u))"
    using Updated by (simp add: save_fails_def)
  let ?m1 = "record_call (Refresh a) m"
  have len1: "length (dreaminaAccounts ?m1) = length orig"
    and inv1: "\<forall>i<length orig. refresh_fails tm (orig ! i) \<longrightarrow> dreaminaAccounts ?m1 ! i = orig ! i"
    using len inv by (simp_all add: record_call_def)
  note r = replace_by_email_keeps_failed [OF dist a ok len1 inv1, of u]
  show ?thesis
    using Updated ok sf r
    by (simp add: refresh_one_def record_call_def attempted_append)
next
  case RefreshNull
  then have "refresh_fails tm a" by (simp add: refresh_fails_def)
  then show ?thesis
    using RefreshNull len inv by (simp add: refresh_one_def record_call_def attempted_append)
next
  case RefreshThrows
  then have "refresh_fails tm a" by (simp add: refresh_fails_def)
  then show ?thesis
    using RefreshThrows len inv by (simp add: refresh_one_def record_call_def attempted_append)
qed

lemma refresh_each_inv:
  assumes dist: "distinct (map email orig)"
  shows "set cs \<subseteq> set orig \<Longrightarrow>
    length (dreaminaAccounts m) = length orig \<Longrightarrow>
    (\<forall>i<length orig. refresh_fails tm (orig ! i) \<longrightarrow> dreaminaAccounts m ! i = orig ! i) \<Longrightarrow>
    \<exists>m' fc'. refresh_each tm dp cs (m, sc, fc)
            = (m', sc + length (filter (\<lambda>a. \<not> (refresh_fails tm a \<or> save_fails tm dp a)) cs), fc')
       \<and> length (dreaminaAccounts m') = length orig
       \<and> (\<forall>i<length orig. refresh_fails tm (orig ! i) \<longrightarrow> dreaminaAccounts m' ! i = orig ! i)
       \<and> attempted (calls m') = attempted (calls m) @ cs
       \<and> isInitialized m' = isInitialized m"
proof (induction cs arbitrary: m sc fc)
  case Nil
  then show ?case by simp
next
  case (Cons a cs)
  let ?bad = "refresh_fails tm a \<or> save_fails tm dp a"
  have a: "a \<in> set orig" and sub: "set cs \<subseteq> set orig" using Cons.prems(1) by auto
  from refresh_one_step [OF dist a Cons.prems(2) Cons.prems(3), of dp sc fc]
  obtain m1 where one: "refresh_one tm dp a (m, sc, fc)
             = (m1, sc + (if ?bad then 0 else 1), fc + (if ?bad then 1 else 0))"
    and len1: "length (dreaminaAccounts m1) = length orig"
    and inv1: "\<forall>i<length orig. refresh_fails tm (orig ! i) \<longrightarrow> dreaminaAccounts m1 ! i = orig ! i"
    and att1: "attempted (calls m1) = attempted (calls m) @ [a]"
    and ini1: "isInitialized m1 = isInitialized m"
    by blast
  from Cons.IH [OF sub len1 inv1, of "sc + (if ?bad then 0 else 1)" "fc + (if ?bad then 1 else 0)"]
  obtain m' fc' where rest: "refresh_each tm dp cs
        (m1, sc + (if ?bad then 0 else 1), fc + (if ?bad then 1 else 0))
          = (m', sc + (if ?bad then 0 else 1)
                   + length (filter (\<lambda>a. \<not> (refresh_fails tm a \<or> save_fails tm dp a)) cs), fc')"
    and len': "length (dreaminaAccounts m') = length orig"
    and inv': "\<forall>i<length orig. refresh_fails tm (orig ! i) \<longrightarrow> dreaminaAccounts m' ! i = orig ! i"
    and att': "attempted (calls m') = attempted (calls m1) @ cs"
    and ini': "isInitialized m' = isInitialized m1"
    by blast
  have "refresh_each tm dp (a # cs) (m, sc, fc)
          = (m', sc + length (filter (\<lambda>a. \<not> (refresh_fails tm a \<or> save_fails tm dp a)) (a # cs)), fc')"
    using one rest by simp
  then show ?case using len' inv' att' att1 ini' ini1 by simp
qed

lemma count_refreshed:
  "length (filter (\<lambda>a. \<not> (refresh_fails tm a \<or> save_fails tm dp a)) xs)
     = length xs - length (filter (refresh_fails tm) xs) - length (filter (save_fails tm dp) xs)"
proof -
  have excl: "save_fails tm dp a \<Longrightarrow> \<not> refresh_fails tm a" for a
    by (auto simp: save_fails_def refresh_fails_def split: refresh_result.splits)
  have "length (filter (\<lambda>a. \<not> (refresh_fails tm a \<or> save_fails tm dp a)) xs)
          + length (filter (refresh_fails tm) xs) + length (filter (save_fails tm dp) xs)
        = length xs"
    using excl by (induction xs) auto
  then show ?thesis by simp
qed


text \<open>
  C1 as amended. Take an initialized manager whose store holds N accounts with
  pairwise distinct emails and a threshold under which all of them are
  candidates. Let K of the N refresh attempts fail (the call returns null or
  throws), and let the save that follows a successful refresh throw for P of the
  other accounts. Then the scan returns N - K - P, which is N - K when every save
  goes through. The store keeps its length and, at the position of every account
  whose refresh failed, still holds that account's record as it was (sessionid
  and expiry included). A refresh was attempted for every one of the N accounts,
  in store order, whatever the outcome of the earlier ones. The same count is
  returned through the route refreshAllAccounts, and by the timer's call and the
  route forceRefreshAllAccounts when the threshold is theirs (24 and 8760).
\<close>

theorem refresh_scan_isolates_failures:
  assumes init: "isInitialized m"
    and dist: "distinct (map email (dreaminaAccounts m))"
    and cand: "\<forall>a\<in>set (dreaminaAccounts m).
                 isSessionIdExpiringSoon tm (sessionid_expires a) thresholdHours"
    and N: "N = length (dreaminaAccounts m)"
    and K: "K = length (filter (refresh_fails tm) (dreaminaAccounts m))"
    and P: "P = length (filter (save_fails tm dp) (dreaminaAccounts m))"
  shows "fst (autoRefreshSessionIds tm dp thresholdHours m) = N - K - P
       \<and> length (dreaminaAccounts (snd (autoRefreshSessionIds tm dp thresholdHours m))) = N
       \<and> (\<forall>i<N. refresh_fails tm (dreaminaAccounts m ! i) \<longrightarrow>
             dreaminaAccounts (snd (autoRefreshSessionIds tm dp thresholdHours m)) ! i
               = dreaminaAccounts m ! i)
       \<and> attempted (calls (snd (autoRefreshSessionIds tm dp thresholdHours m)))
           = attempted (calls m) @ dreaminaAccounts m
       \<and> fst (fst (refreshAllAccounts tm dp (Some thresholdHours) m)) = N - K - P
       \<and> (thresholdHours = 24 \<longrightarrow> fst (scheduled_tick tm dp m) = N - K - P)
       \<and> (thresholdHours = 8760 \<longrightarrow> fst (fst (forceRefreshAllAccounts tm dp m)) = N - K - P)"
proof -
  let ?orig = "dreaminaAccounts m"
  let ?r = "autoRefreshSessionIds tm dp thresholdHours m"
  have needs: "filter (\<lambda>account. isSessionIdExpiringSoon tm (sessionid_expires account) thresholdHours) ?orig
                 = ?orig"
    using cand by (simp add: filter_id_conv)
  have cnt: "length (filter (\<lambda>a. \<not> (refresh_fails tm a \<or> save_fails tm dp a)) ?orig) = N - K - P"
    using count_refreshed [of tm dp ?orig] N K P by simp
  have main: "fst ?r = N - K - P
       \<and> length (dreaminaAccounts (snd ?r)) = N
       \<and> (\<forall>i<N. refresh_fails tm (?orig ! i) \<longrightarrow> dreaminaAccounts (snd ?r) ! i = ?orig ! i)
       \<and> attempted (calls (snd ?r)) = attempted (calls m) @ ?orig"
  proof (cases "?orig = []")
    case True
    then show ?thesis using init N K by (simp add: autoRefreshSessionIds_def)
  next
    case False
    from refresh_each_inv [OF dist, of ?orig m tm dp 0 0]
    obtain m' fc' where run: "refresh_each tm dp ?orig (m, 0, 0)
            = (m', 0 + length (filter (\<lambda>a. \<not> (refresh_fails tm a \<or> save_fails tm dp a)) ?orig), fc')"
      and len': "length (dreaminaAccounts m') = length ?orig"
      and inv': "\<forall>i<length ?orig. refresh_fails tm (?orig ! i) \<longrightarrow> dreaminaAccounts m' ! i = ?orig ! i"
      and att': "attempted (calls m') = attempted (calls m) @ ?orig"
      by auto
    have "?r = (N - K - P, m')"
      using init False run cnt by (simp add: autoRefreshSessionIds_def needs)
    then show ?thesis using len' inv' att' N by simp
  qed
  have route: "fst (fst (refreshAllAccounts tm dp (Some thresholdHours) m)) = fst ?r"
    by (simp add: refreshAllAccounts_def split: prod.splits)
  have tick: "thresholdHours = 24 \<longrightarrow> fst (scheduled_tick tm dp m) = N - K - P"
    using main by (auto simp: scheduled_tick_def)
  have force: "thresholdHours = 8760 \<longrightarrow> fst (fst (forceRefreshAllAccounts tm dp m)) = N - K - P"
    using main by (auto simp: forceRefreshAllAccounts_def split: prod.splits)
  show ?thesis using main route tick force by simp
qed

theorem refresh_scan_isolates_failures_witness:
  "fst (autoRefreshSessionIds tm_some_fail dp_some_fail 24
        (mgr True [acct ''a'' (Some ''s1''), acct ''bad'' (Some ''s2''),
                   acct ''worse'' (Some ''s3''), acct ''d'' (Some ''s4'')])) = 1
   \<and> fst (autoRefreshSessionIds tm_some_fail dp_ok 24
        (mgr True [acct ''a'' (Some ''s1''), acct ''bad'' (Some ''s2''),
                   acct ''worse'' (Some ''s3''), acct ''d'' (Some ''s4'')])) = 2
   \<and> dreaminaAccounts (snd (autoRefreshSessionIds tm_some_fail dp_some_fail 24
        (mgr True [acct ''a'' (Some ''s1''), acct ''bad'' (Some ''s2''),
                   acct ''worse'' (Some ''s3''), acct ''d'' (Some ''s4'')]))) ! 1
       = acct ''bad'' (Some ''s2'')
   \<and> dreaminaAccounts (snd (autoRefreshSessionIds tm_some_fail dp_some_fail 24
        (mgr True [acct ''a'' (Some ''s1''), acct ''bad'' (Some ''s2''),
                   acct ''worse'' (Some ''s3''), acct ''d'' (Some ''s4'')]))) ! 2
       = acct ''worse'' (Some ''s3'')"
proof -
  let ?as = "[acct ''a'' (Some ''s1''), acct ''bad'' (Some ''s2''),
              acct ''worse'' (Some ''s3''), acct ''d'' (Some ''s4'')]"
  let ?m = "mgr True ?as"
  have h1: "isInitialized ?m" by (simp add: mgr_def)
  have h2: "distinct (map email (dreaminaAccounts ?m))" by (simp add: mgr_def acct_def)
  have h3: "\<forall>a\<in>set (dreaminaAccounts ?m). isSessionIdExpiringSoon tm_some_fail (sessionid_expires a) 24"
    by (simp add: tm_some_fail_def)
  have h4: "4 = length (dreaminaAccounts ?m)" by (simp add: mgr_def)
  have h5: "2 = length (filter (refresh_fails tm_some_fail) (dreaminaAccounts ?m))"
    by (simp add: mgr_def acct_def refresh_fails_def tm_some_fail_def)
  have h6: "1 = length (filter (save_fails tm_some_fail dp_some_fail) (dreaminaAccounts ?m))"
    by (simp add: mgr_def acct_def save_fails_def tm_some_fail_def dp_some_fail_def)
  have h7: "0 = length (filter (save_fails tm_some_fail dp_ok) (dreaminaAccounts ?m))"
    by (simp add: mgr_def acct_def save_fails_def tm_some_fail_def dp_ok_def)
  have f1: "refresh_fails tm_some_fail (dreaminaAccounts ?m ! 1)"
    by (simp add: mgr_def acct_def refresh_fails_def tm_some_fail_def)
  have f2: "refresh_fails tm_some_fail (dreaminaAccounts ?m ! 2)"
    by (simp add: mgr_def acct_def refresh_fails_def tm_some_fail_def)
  have o1: "dreaminaAccounts ?m ! 1 = acct ''bad'' (Some ''s2'')" by (simp add: mgr_def)
  have o2: "dreaminaAccounts ?m ! 2 = acct ''worse'' (Some ''s3'')" by (simp add: mgr_def)
  show ?thesis
    using refresh_scan_isolates_failures [OF h1 h2 h3 h4 h5 h6]
      refresh_scan_isolates_failures [OF h1 h2 h3 h4 h5 h7] f1 f2 o1 o2
    by simp
qed

theorem refresh_scan_save_throws_counterexample:
  "fst (autoRefreshSessionIds tm_ok dp_fail 24
        (mgr True [acct ''a'' (Some ''s1''), acct ''b'' (Some ''s2'')])) = 0
   \<and> length (filter (refresh_fails tm_ok) [acct ''a'' (Some ''s1''), acct ''b'' (Some ''s2'')]) = 0
   \<and> sessionid (dreaminaAccounts (snd (autoRefreshSessionIds tm_ok dp_fail 24
        (mgr True [acct ''a'' (Some ''s1''), acct ''b'' (Some ''s2'')]))) ! 0) = Some ''fresh''"
  by (simp add: autoRefreshSessionIds_def mgr_def acct_def tm_ok_def dp_fail_def refresh_fails_def
      refresh_one_def replace_by_email_def record_call_def)

end
